theory Spec2Isabelle
  imports Main "HOL-Library.Word"
begin

unbundle bit_operations_syntax

section \<open>Data model of the runtime core (runtime.c)\<close>

text \<open>
  Machine types. \<open>size_t\<close> and \<open>uint64_t\<close> are 64-bit words, \<open>atomic_int\<close> counters
  are 32-bit words (atomic arithmetic wraps), \<open>int8_t\<close> results are 8-bit words.
  Pointers to legions and channels are heap addresses; a C pointer that may be
  \<open>NULL\<close> is an \<open>option\<close>. The run-queue indices \<open>queue_head\<close> and \<open>queue_tail\<close> are
  only ever initialised to 0 and assigned \<open>(x + 1) % LEGION_QUEUE_SIZE\<close>, so they
  are array indices of type \<open>nat\<close>. Fields keep their names in the source, except
  the legion's \<open>id\<close>, which is \<open>legion_id\<close>; a local variable that shares its name
  with a field carries a prime. Mutexes and condition variables hold no data of
  their own and are not fields of the model.
\<close>

type_synonym size_t = "64 word"
type_synonym uint64_t = "64 word"
type_synonym atomic_int = "32 word"
type_synonym int8_t = "8 word"
type_synonym legion_ptr = nat
type_synonym chan_ptr = nat

definition LEGION_STACK_SIZE :: size_t where
  "LEGION_STACK_SIZE = 256 * 1024"

definition LEGION_STACK_MAX :: size_t where
  "LEGION_STACK_MAX = 2 * 1024 * 1024"

definition LEGION_STACK_GUARD_SIZE :: size_t where
  "LEGION_STACK_GUARD_SIZE = 4096"

definition MAX_OS_THREADS :: nat where
  "MAX_OS_THREADS = 4"

definition LEGION_QUEUE_SIZE :: nat where
  "LEGION_QUEUE_SIZE = 256"

datatype LegionState =
  LEGION_STATE_RUNNABLE | LEGION_STATE_RUNNING | LEGION_STATE_BLOCKED | LEGION_STATE_DEAD

text \<open>The saved register file; the struct differs between the two supported targets.\<close>

datatype arch = AArch64 | X86_64

datatype Context =
  Context_aarch64 (x19: uint64_t) (x20: uint64_t) (x21: uint64_t) (x22: uint64_t)
    (x23: uint64_t) (x24: uint64_t) (x25: uint64_t) (x26: uint64_t) (x27: uint64_t)
    (x28: uint64_t) (fp: uint64_t) (lr: uint64_t) (sp: uint64_t)
| Context_x86_64 (rbx: uint64_t) (rbp: uint64_t) (r12: uint64_t) (r13: uint64_t)
    (r14: uint64_t) (r15: uint64_t) (rsp: uint64_t) (rip: uint64_t)

text \<open>What the build fixes: the target and the addresses of the two entry stubs.\<close>

record platform =
  target :: arch
  legion_trampoline :: uint64_t
  legion_entry :: uint64_t

record Legion =
  fn :: uint64_t
  arg :: uint64_t
  stack :: uint64_t
  stack_base :: uint64_t
  stack_size :: size_t
  stack_cap :: size_t
  ctx :: Context
  ctx_saved :: Context
  state :: LegionState
  "next" :: "legion_ptr option"
  blocked_on :: "chan_ptr option"
  legion_id :: atomic_int
  thread_id :: int
  stack_overflow :: int

record 'a Channel =
  buffer :: "'a list"
  elem_size :: size_t
  capacity :: size_t
  head :: size_t
  tail :: size_t
  count :: size_t
  closed :: atomic_int
  blocked_senders :: "legion_ptr option"
  blocked_receivers :: "legion_ptr option"

record Scheduler =
  num_threads :: nat
  run_queue :: "nat \<Rightarrow> nat \<Rightarrow> legion_ptr option"
  queue_head :: "nat \<Rightarrow> nat"
  queue_tail :: "nat \<Rightarrow> nat"
  active_legions :: atomic_int
  shutdown :: atomic_int
  current_legion :: "nat \<Rightarrow> legion_ptr option"

text \<open>
  The process state: the global scheduler pointer (\<open>None\<close> before
  \<open>runtime_scheduler_init\<close>), the legion id counter, the heap of legion and channel
  structs, and the allocator's next free address.
\<close>

record 'a world =
  g_scheduler :: "Scheduler option"
  g_legion_id_counter :: atomic_int
  legions :: "legion_ptr \<Rightarrow> Legion"
  channels :: "chan_ptr \<Rightarrow> 'a Channel"
  next_alloc :: nat

text \<open>
  How a call that takes the channel mutex ends: it returned a result, it parked the
  calling legion on the channel and handed control to \<open>runtime_legion_yield\<close>, it
  sleeps in \<open>pthread_cond_wait\<close>, or it left defined behaviour (a \<open>NULL\<close>
  dereference, a division by zero, an access outside the buffer). A parked or
  waiting call resumes at the test of its wait loop with the mutex held again, which
  is the first statement after taking the lock: resuming is applying the same function
  to the state found then.
\<close>

datatype ('r, 'w) outcome = Returned 'r 'w | Parked 'w | Waiting 'w | Fault

section \<open>Allocation\<close>

text \<open>\<open>runtime_alloc\<close> hands out a fresh address (it aborts the process when memory is exhausted).\<close>

definition runtime_alloc :: "'a world \<Rightarrow> nat \<times> 'a world" where
  "runtime_alloc w = (next_alloc w, w\<lparr>next_alloc := Suc (next_alloc w)\<rparr>)"

section \<open>Scheduler: thread identity and run queues\<close>

text \<open>
  \<open>set_thread_id\<close> stores the worker's id, cast to a pointer, in the calling thread's
  slot of the thread-local key; \<open>set_thread_id id\<close> is the content of the slot after
  the call. \<open>get_thread_id\<close> reads the slot, passed here as \<open>tls\<close>: 0 is the \<open>NULL\<close>
  of a slot never written, and also what worker 0 stored. It dereferences
  \<open>g_scheduler\<close>, so its callers handle the \<open>NULL\<close> scheduler.
\<close>

definition set_thread_id :: "int \<Rightarrow> int" where
  "set_thread_id id' = id'"

definition get_thread_id :: "int \<Rightarrow> int" where
  "get_thread_id tls = (if tls = 0 then - 1 else tls)"

definition runtime_get_current_legion :: "'a world \<Rightarrow> int \<Rightarrow> legion_ptr option" where
  "runtime_get_current_legion w tls =
     (case g_scheduler w of
        None \<Rightarrow> None
      | Some s \<Rightarrow>
          (let thread_id' = get_thread_id tls in
           if thread_id' < 0 \<or> thread_id' \<ge> int MAX_OS_THREADS then None
           else current_legion s (nat thread_id')))"

definition push_to_local_queue :: "Scheduler \<Rightarrow> nat \<Rightarrow> legion_ptr option \<Rightarrow> int \<times> Scheduler" where
  "push_to_local_queue s thread_id' legion =
     (let tail' = queue_tail s thread_id';
          next_tail = (tail' + 1) mod LEGION_QUEUE_SIZE in
      if next_tail = queue_head s thread_id' then (0, s)
      else (1, s\<lparr>run_queue := (run_queue s)(thread_id' := (run_queue s thread_id')(tail' := legion)),
                  queue_tail := (queue_tail s)(thread_id' := next_tail)\<rparr>))"

definition pop_from_local_queue :: "Scheduler \<Rightarrow> nat \<Rightarrow> legion_ptr option \<times> Scheduler" where
  "pop_from_local_queue s thread_id' =
     (let head' = queue_head s thread_id';
          tail' = queue_tail s thread_id' in
      if head' = tail' then (None, s)
      else (let legion = run_queue s thread_id' head' in
            (legion, s\<lparr>queue_head := (queue_head s)(thread_id' := (head' + 1) mod LEGION_QUEUE_SIZE)\<rparr>)))"

definition steal_from_queue :: "Scheduler \<Rightarrow> nat \<Rightarrow> legion_ptr option \<times> Scheduler" where
  "steal_from_queue s victim_thread_id =
     (let head' = queue_head s victim_thread_id;
          tail' = queue_tail s victim_thread_id in
      if head' = tail' then (None, s)
      else (let expected = head';
                next_head = (head' + 1) mod LEGION_QUEUE_SIZE in
            if queue_head s victim_thread_id = expected
            then (run_queue s victim_thread_id head',
                  s\<lparr>queue_head := (queue_head s)(victim_thread_id := next_head)\<rparr>)
            else (None, s)))"

definition get_queue_length :: "Scheduler \<Rightarrow> nat \<Rightarrow> nat" where
  "get_queue_length s thread_id' =
     (let head' = queue_head s thread_id';
          tail' = queue_tail s thread_id' in
      if tail' \<ge> head' then tail' - head'
      else (LEGION_QUEUE_SIZE - head') + tail')"

text \<open>The scan keeps \<open>(best_thread, best_load)\<close> and visits workers 1 to 3 in order.\<close>

definition find_least_loaded_thread :: "Scheduler \<Rightarrow> nat" where
  "find_least_loaded_thread s =
     fst (fold (\<lambda>i (best_thread, best_load).
                  let load = get_queue_length s i in
                  if load < best_load then (i, load) else (best_thread, best_load))
               [1..<MAX_OS_THREADS] (0, get_queue_length s 0))"

text \<open>
  \<open>runtime_legion_start\<close>: the lock-free push on the chosen queue, and behind it the
  same test and store under the queue mutex. Signalling the condition variable
  changes no data.
\<close>

definition runtime_legion_start :: "'a world \<Rightarrow> legion_ptr option \<Rightarrow> 'a world" where
  "runtime_legion_start w legion =
     (case legion of
        None \<Rightarrow> w
      | Some l \<Rightarrow>
          (case g_scheduler w of
             None \<Rightarrow> w
           | Some s0 \<Rightarrow>
               (let s = s0\<lparr>active_legions := active_legions s0 + 1\<rparr>;
                    queue_idx = find_least_loaded_thread s;
                    (pushed, s1) = push_to_local_queue s queue_idx legion in
                if pushed = 0 then
                  (let tail' = queue_tail s1 queue_idx;
                       next_tail = (tail' + 1) mod LEGION_QUEUE_SIZE in
                   if next_tail \<noteq> queue_head s1 queue_idx
                   then w\<lparr>g_scheduler := Some (s1\<lparr>run_queue := (run_queue s1)(queue_idx :=
                                                      (run_queue s1 queue_idx)(tail' := legion)),
                                                  queue_tail := (queue_tail s1)(queue_idx := next_tail)\<rparr>)\<rparr>
                   else w\<lparr>g_scheduler := Some s1\<rparr>)
                else w\<lparr>g_scheduler := Some s1\<rparr>)))"

section \<open>Legions: spawn, block, unblock\<close>

definition malphas_context_make_trampoline ::
    "platform \<Rightarrow> uint64_t \<Rightarrow> uint64_t \<Rightarrow> uint64_t \<Rightarrow> size_t \<Rightarrow> Context" where
  "malphas_context_make_trampoline pf f a stack_base' stack_size' =
     (let sp0 = stack_base' + stack_size';
          sp1 = sp0 AND NOT 15 in
      case target pf of
        AArch64 \<Rightarrow> Context_aarch64 a f 0 0 0 0 0 0 0 0 sp1 (legion_trampoline pf) sp1
      | X86_64 \<Rightarrow> Context_x86_64 a 0 f 0 0 0 (sp1 - 8) (legion_trampoline pf))"

text \<open>Freshly allocated memory is zeroed.\<close>

definition zero_context :: "platform \<Rightarrow> Context" where
  "zero_context pf =
     (case target pf of
        AArch64 \<Rightarrow> Context_aarch64 0 0 0 0 0 0 0 0 0 0 0 0 0
      | X86_64 \<Rightarrow> Context_x86_64 0 0 0 0 0 0 0 0)"

text \<open>
  \<open>allocate_stack_with_guard\<close>: \<open>mem\<close> is what \<open>mmap\<close> returned for
  \<open>size + 2 * LEGION_STACK_GUARD_SIZE\<close> bytes, \<open>None\<close> for \<open>MAP_FAILED\<close>.
\<close>

definition allocate_stack_with_guard :: "uint64_t option \<Rightarrow> size_t \<Rightarrow> uint64_t option" where
  "allocate_stack_with_guard mem size' =
     (case mem of
        None \<Rightarrow> None
      | Some m \<Rightarrow> Some (m + LEGION_STACK_GUARD_SIZE))"

definition runtime_legion_spawn ::
    "platform \<Rightarrow> uint64_t option \<Rightarrow> 'a world \<Rightarrow> uint64_t \<Rightarrow> uint64_t \<Rightarrow> size_t
       \<Rightarrow> legion_ptr \<times> 'a world" where
  "runtime_legion_spawn pf mem w f a stack_size0 =
     (let stack_size1 = (if stack_size0 = 0 then LEGION_STACK_SIZE else stack_size0);
          stack_size2 = (if stack_size1 > LEGION_STACK_MAX then LEGION_STACK_MAX else stack_size1);
          (legion, w1) = runtime_alloc w;
          (base, w2) = (case allocate_stack_with_guard mem stack_size2 of
                          None \<Rightarrow> (let (p, w') = runtime_alloc w1 in (word_of_nat p, w'))
                        | Some b \<Rightarrow> (b, w1));
          L = \<lparr>fn = f, arg = a, stack = base, stack_base = base,
               stack_size = stack_size2, stack_cap = stack_size2,
               ctx = malphas_context_make_trampoline pf (legion_entry pf) (word_of_nat legion)
                       base stack_size2,
               ctx_saved = zero_context pf,
               state = LEGION_STATE_RUNNABLE, next = None, blocked_on = None,
               legion_id = g_legion_id_counter w2, thread_id = - 1, stack_overflow = 0\<rparr>
      in (legion, w2\<lparr>legions := (legions w2)(legion := L),
                      g_legion_id_counter := g_legion_id_counter w2 + 1\<rparr>))"

text \<open>
  \<open>runtime_legion_block\<close> calls \<open>get_thread_id\<close> and updates the counter through
  \<open>g_scheduler\<close> without testing it: with no scheduler it dereferences \<open>NULL\<close>.
\<close>

definition runtime_legion_block ::
    "'a world \<Rightarrow> int \<Rightarrow> legion_ptr option \<Rightarrow> chan_ptr option \<Rightarrow> 'a world option" where
  "runtime_legion_block w tls legion channel =
     (case legion of
        None \<Rightarrow> Some w
      | Some l \<Rightarrow>
          (case g_scheduler w of
             None \<Rightarrow> None
           | Some s \<Rightarrow>
               (let thread_id' = get_thread_id tls;
                    in_pool = (thread_id' \<ge> 0 \<and> thread_id' < int MAX_OS_THREADS);
                    s1 = (if in_pool
                          then s\<lparr>current_legion := (current_legion s)(nat thread_id' := None)\<rparr>
                          else s);
                    L1 = (if in_pool then (legions w l)\<lparr>thread_id := - 1\<rparr> else legions w l);
                    L2 = L1\<lparr>state := LEGION_STATE_BLOCKED, blocked_on := channel\<rparr>;
                    s2 = s1\<lparr>active_legions := active_legions s1 - 1\<rparr>
                in Some (w\<lparr>g_scheduler := Some s2, legions := (legions w)(l := L2)\<rparr>))))"

definition unblock_legion_from_channel :: "'a world \<Rightarrow> legion_ptr option \<Rightarrow> 'a world option" where
  "unblock_legion_from_channel w legion =
     (case legion of
        None \<Rightarrow> Some w
      | Some l \<Rightarrow>
          if state (legions w l) \<noteq> LEGION_STATE_BLOCKED then Some w
          else
            (let w1 = w\<lparr>legions := (legions w)(l := (legions w l)\<lparr>state := LEGION_STATE_RUNNABLE,
                                                                   blocked_on := None\<rparr>)\<rparr> in
             case g_scheduler w1 of
               None \<Rightarrow> None
             | Some s \<Rightarrow>
                 Some (runtime_legion_start
                         (w1\<lparr>g_scheduler := Some (s\<lparr>active_legions := active_legions s + 1\<rparr>)\<rparr>)
                         legion)))"

definition runtime_legion_unblock :: "'a world \<Rightarrow> legion_ptr option \<Rightarrow> 'a world option" where
  "runtime_legion_unblock w legion =
     (case legion of
        None \<Rightarrow> Some w
      | Some l \<Rightarrow>
          if state (legions w l) \<noteq> LEGION_STATE_BLOCKED then Some w
          else
            (let w1 = w\<lparr>legions := (legions w)(l := (legions w l)\<lparr>state := LEGION_STATE_RUNNABLE,
                                                                   blocked_on := None\<rparr>)\<rparr> in
             case g_scheduler w1 of
               None \<Rightarrow> None
             | Some s \<Rightarrow>
                 Some (runtime_legion_start
                         (w1\<lparr>g_scheduler := Some (s\<lparr>active_legions := active_legions s + 1\<rparr>)\<rparr>)
                         legion)))"

text \<open>
  \<open>runtime_legion_yield\<close> up to its final context switch: the running legion becomes
  RUNNABLE and is pushed back, on its own ring or else on the first other ring that
  takes it. The switch to the scheduler context itself is outside the model.
\<close>

definition runtime_legion_yield :: "'a world \<Rightarrow> int \<Rightarrow> 'a world option" where
  "runtime_legion_yield w tls =
     (case g_scheduler w of
        None \<Rightarrow> None
      | Some s \<Rightarrow>
          (let thread_id' = get_thread_id tls in
           if thread_id' < 0 \<or> thread_id' \<ge> int MAX_OS_THREADS then Some w
           else
             (case current_legion s (nat thread_id') of
                None \<Rightarrow> Some w
              | Some current \<Rightarrow>
                  (let L = (legions w current)\<lparr>state := LEGION_STATE_RUNNABLE\<rparr>;
                       (pushed, s1) = push_to_local_queue s (nat thread_id') (Some current);
                       s2 = (if pushed = 0
                             then snd (fold (\<lambda>i (placed, s').
                                         if placed \<or> i = nat thread_id' then (placed, s')
                                         else (let (p, s'') = push_to_local_queue s' i (Some current)
                                               in (p \<noteq> 0, s'')))
                                       [0..<MAX_OS_THREADS] (False, s1))
                             else s1);
                       s3 = s2\<lparr>current_legion := (current_legion s2)(nat thread_id' := None)\<rparr>
                   in Some (w\<lparr>g_scheduler := Some s3,
                              legions := (legions w)(current := L\<lparr>thread_id := - 1\<rparr>)\<rparr>)))))"

section \<open>Channels\<close>

text \<open>
  A buffer cell is \<open>elem_size\<close> bytes and its content is a value of type \<open>'a\<close>; zeroed
  memory is \<open>0\<close>. \<open>runtime_channel_new\<close> allocates \<open>elem_size * capacity\<close> bytes, the
  product taken in \<open>size_t\<close>, so when the product wraps the buffer is shorter than
  \<open>capacity\<close> cells: it holds the cells that lie inside the allocation (a cell of zero
  bytes always does). The model describes an access to cell \<open>i\<close> only when that cell
  is in the buffer; any other access (outside the allocation, or at a byte offset that
  wrapped) is a \<open>Fault\<close>.
\<close>

definition buffer_cells :: "size_t \<Rightarrow> size_t \<Rightarrow> nat" where
  "buffer_cells elem_size' capacity' =
     (if elem_size' = 0 then unat capacity'
      else unat (elem_size' * capacity') div unat elem_size')"

definition runtime_channel_new :: "'a::zero world \<Rightarrow> size_t \<Rightarrow> size_t \<Rightarrow> chan_ptr \<times> 'a world" where
  "runtime_channel_new w elem_size' capacity' =
     (let (ch, w1) = runtime_alloc w;
          (buf, w2) = runtime_alloc w1;
          C = \<lparr>buffer = replicate (buffer_cells elem_size' capacity') 0, elem_size = elem_size',
               capacity = capacity', head = 0, tail = 0, count = 0, closed = 0,
               blocked_senders = None, blocked_receivers = None\<rparr>
      in (ch, w2\<lparr>channels := (channels w2)(ch := C)\<rparr>))"

text \<open>
  The code between taking the mutex in \<open>runtime_channel_send\<close> and the next point
  where it is released. In the wait loop a caller that is a legion links itself at the
  head of \<open>blocked_senders\<close> and blocks; any other caller waits on \<open>not_full\<close>.
\<close>

definition runtime_channel_send ::
    "'a world \<Rightarrow> int \<Rightarrow> chan_ptr option \<Rightarrow> 'a \<Rightarrow> (unit, 'a world) outcome" where
  "runtime_channel_send w tls ch v =
     (case ch of
        None \<Rightarrow> Returned () w
      | Some c \<Rightarrow>
          (let C = channels w c in
           if count C \<ge> capacity C \<and> closed C = 0 then
             (case runtime_get_current_legion w tls of
                Some current \<Rightarrow>
                  (let w1 = w\<lparr>legions := (legions w)(current :=
                                              (legions w current)\<lparr>next := blocked_senders C\<rparr>),
                              channels := (channels w)(c := C\<lparr>blocked_senders := Some current\<rparr>)\<rparr>
                   in case runtime_legion_block w1 tls (Some current) ch of
                        None \<Rightarrow> Fault
                      | Some w2 \<Rightarrow> Parked w2)
              | None \<Rightarrow> Waiting w)
           else if closed C \<noteq> 0 then Returned () w
           else if unat (tail C) \<ge> length (buffer C) then Fault
           else
             (let C1 = C\<lparr>buffer := (buffer C)[unat (tail C) := v],
                         tail := (tail C + 1) mod capacity C,
                         count := count C + 1\<rparr>;
                  w1 = w\<lparr>channels := (channels w)(c := C1)\<rparr>
              in case blocked_receivers C1 of
                   Some receiver \<Rightarrow>
                     (let w2 = w1\<lparr>channels := (channels w1)(c :=
                                                   C1\<lparr>blocked_receivers := next (legions w1 receiver)\<rparr>),
                                  legions := (legions w1)(receiver :=
                                                   (legions w1 receiver)\<lparr>next := None\<rparr>)\<rparr>
                      in case unblock_legion_from_channel w2 (Some receiver) of
                           None \<Rightarrow> Fault
                         | Some w3 \<Rightarrow> Returned () w3)
                 | None \<Rightarrow> Returned () w1)))"

text \<open>
  \<open>runtime_channel_recv\<close>, likewise. The result is a freshly allocated copy of the
  cell at \<open>head\<close>; \<open>None\<close> is the \<open>NULL\<close> result.
\<close>

definition runtime_channel_recv ::
    "'a world \<Rightarrow> int \<Rightarrow> chan_ptr option \<Rightarrow> ('a option, 'a world) outcome" where
  "runtime_channel_recv w tls ch =
     (case ch of
        None \<Rightarrow> Returned None w
      | Some c \<Rightarrow>
          (let C = channels w c in
           if count C = 0 \<and> closed C = 0 then
             (case runtime_get_current_legion w tls of
                Some current \<Rightarrow>
                  (let w1 = w\<lparr>legions := (legions w)(current :=
                                              (legions w current)\<lparr>next := blocked_receivers C\<rparr>),
                              channels := (channels w)(c := C\<lparr>blocked_receivers := Some current\<rparr>)\<rparr>
                   in case runtime_legion_block w1 tls (Some current) ch of
                        None \<Rightarrow> Fault
                      | Some w2 \<Rightarrow> Parked w2)
              | None \<Rightarrow> Waiting w)
           else if count C = 0 \<and> closed C \<noteq> 0 then Returned None w
           else if unat (head C) \<ge> length (buffer C) \<or> capacity C = 0 then Fault
           else
             (let (result, w0) = runtime_alloc w;
                  r = buffer C ! unat (head C);
                  C1 = C\<lparr>head := (head C + 1) mod capacity C, count := count C - 1\<rparr>;
                  w1 = w0\<lparr>channels := (channels w0)(c := C1)\<rparr>
              in case blocked_senders C1 of
                   Some sender \<Rightarrow>
                     (let w2 = w1\<lparr>channels := (channels w1)(c :=
                                                   C1\<lparr>blocked_senders := next (legions w1 sender)\<rparr>),
                                  legions := (legions w1)(sender :=
                                                   (legions w1 sender)\<lparr>next := None\<rparr>)\<rparr>
                      in case unblock_legion_from_channel w2 (Some sender) of
                           None \<Rightarrow> Fault
                         | Some w3 \<Rightarrow> Returned (Some r) w3)
                 | None \<Rightarrow> Returned (Some r) w1)))"

definition runtime_channel_close :: "'a world \<Rightarrow> chan_ptr option \<Rightarrow> 'a world" where
  "runtime_channel_close w ch =
     (case ch of
        None \<Rightarrow> w
      | Some c \<Rightarrow> w\<lparr>channels := (channels w)(c := (channels w c)\<lparr>closed := 1\<rparr>)\<rparr>)"

definition runtime_channel_is_closed :: "'a world \<Rightarrow> chan_ptr option \<Rightarrow> int8_t" where
  "runtime_channel_is_closed w ch =
     (case ch of
        None \<Rightarrow> 1
      | Some c \<Rightarrow> ucast (closed (channels w c)))"

definition runtime_channel_try_send ::
    "'a world \<Rightarrow> chan_ptr option \<Rightarrow> 'a \<Rightarrow> (int8_t, 'a world) outcome" where
  "runtime_channel_try_send w ch v =
     (case ch of
        None \<Rightarrow> Returned 0 w
      | Some c \<Rightarrow>
          (let C = channels w c in
           if closed C \<noteq> 0 then Returned 0 w
           else if count C \<ge> capacity C then Returned 0 w
           else if unat (tail C) \<ge> length (buffer C) then Fault
           else
             (let C1 = C\<lparr>buffer := (buffer C)[unat (tail C) := v],
                         tail := (tail C + 1) mod capacity C,
                         count := count C + 1\<rparr>
              in Returned 1 (w\<lparr>channels := (channels w)(c := C1)\<rparr>))))"

text \<open>
  \<open>runtime_channel_try_recv\<close>: \<open>value_null\<close> says that the out-parameter \<open>value\<close> is
  \<open>NULL\<close>. The result pairs the return code with what was stored through \<open>value\<close>:
  \<open>None\<close> when nothing was stored, \<open>Some None\<close> for a stored \<open>NULL\<close>.
\<close>

definition runtime_channel_try_recv ::
    "'a world \<Rightarrow> chan_ptr option \<Rightarrow> bool \<Rightarrow> (int8_t \<times> 'a option option, 'a world) outcome" where
  "runtime_channel_try_recv w ch value_null =
     (case ch of
        None \<Rightarrow> Returned (0, None) w
      | Some c \<Rightarrow>
          if value_null then Returned (0, None) w
          else
            (let C = channels w c in
             if count C = 0 \<and> closed C = 0 then Returned (0, None) w
             else if count C = 0 \<and> closed C \<noteq> 0 then Returned (0, Some None) w
             else if unat (head C) \<ge> length (buffer C) \<or> capacity C = 0 then Fault
             else
               (let (result, w0) = runtime_alloc w;
                    r = buffer C ! unat (head C);
                    C1 = C\<lparr>head := (head C + 1) mod capacity C, count := count C - 1\<rparr>
                in Returned (1, Some (Some r)) (w0\<lparr>channels := (channels w0)(c := C1)\<rparr>))))"

definition runtime_scheduler_init :: "'a world \<Rightarrow> 'a world" where
  "runtime_scheduler_init w =
     (case g_scheduler w of
        Some s \<Rightarrow> w
      | None \<Rightarrow>
          (let (p, w1) = runtime_alloc w;
               s = \<lparr>num_threads = MAX_OS_THREADS, run_queue = (\<lambda>i k. None),
                    queue_head = (\<lambda>i. 0), queue_tail = (\<lambda>i. 0), active_legions = 0,
                    shutdown = 0, current_legion = (\<lambda>i. None)\<rparr>
           in w1\<lparr>g_scheduler := Some s, next_alloc := next_alloc w1 + MAX_OS_THREADS\<rparr>))"

section \<open>Observations used by the properties\<close>

subsection \<open>Run queues\<close>

text \<open>The legions a worker's ring holds, from \<open>queue_head\<close> up to \<open>queue_tail\<close>.\<close>

definition queue_contents :: "Scheduler \<Rightarrow> nat \<Rightarrow> legion_ptr option list" where
  "queue_contents s i =
     map (\<lambda>k. run_queue s i ((queue_head s i + k) mod LEGION_QUEUE_SIZE))
         [0..<get_queue_length s i]"

definition legion_queued :: "'a world \<Rightarrow> legion_ptr \<Rightarrow> bool" where
  "legion_queued w l =
     (case g_scheduler w of
        None \<Rightarrow> False
      | Some s \<Rightarrow> list_ex (\<lambda>i. Some l \<in> set (queue_contents s i)) [0..<MAX_OS_THREADS])"

subsection \<open>Owner pop against a thief, one shared-memory access at a time\<close>

text \<open>
  \<open>pop_from_local_queue\<close> reads \<open>queue_head\<close>, reads \<open>queue_tail\<close>, reads the slot and
  stores the new head; \<open>steal_from_queue\<close> reads both indices, compares and swaps the
  head, and reads the slot. Each program point carries the locals read so far.
\<close>

datatype pop_pc =
  Pop_load_head
| Pop_load_tail nat
| Pop_read_slot nat nat
| Pop_store_head nat "legion_ptr option"
| Pop_done "legion_ptr option"

datatype steal_pc =
  Steal_load_head
| Steal_load_tail nat
| Steal_cas nat nat
| Steal_read_slot nat
| Steal_done "legion_ptr option"

fun pop_step :: "Scheduler \<Rightarrow> nat \<Rightarrow> pop_pc \<Rightarrow> pop_pc \<times> Scheduler" where
  "pop_step s i Pop_load_head = (Pop_load_tail (queue_head s i), s)"
| "pop_step s i (Pop_load_tail h) = (Pop_read_slot h (queue_tail s i), s)"
| "pop_step s i (Pop_read_slot h t) =
     (if h = t then (Pop_done None, s) else (Pop_store_head h (run_queue s i h), s))"
| "pop_step s i (Pop_store_head h l) =
     (Pop_done l, s\<lparr>queue_head := (queue_head s)(i := (h + 1) mod LEGION_QUEUE_SIZE)\<rparr>)"
| "pop_step s i (Pop_done l) = (Pop_done l, s)"

fun steal_step :: "Scheduler \<Rightarrow> nat \<Rightarrow> steal_pc \<Rightarrow> steal_pc \<times> Scheduler" where
  "steal_step s i Steal_load_head = (Steal_load_tail (queue_head s i), s)"
| "steal_step s i (Steal_load_tail h) = (Steal_cas h (queue_tail s i), s)"
| "steal_step s i (Steal_cas h t) =
     (if h = t then (Steal_done None, s)
      else if queue_head s i = h
      then (Steal_read_slot h, s\<lparr>queue_head := (queue_head s)(i := (h + 1) mod LEGION_QUEUE_SIZE)\<rparr>)
      else (Steal_done None, s))"
| "steal_step s i (Steal_read_slot h) = (Steal_done (run_queue s i h), s)"
| "steal_step s i (Steal_done l) = (Steal_done l, s)"

text \<open>
  A schedule says who moves next: \<open>True\<close> for the owner of queue \<open>i\<close>, \<open>False\<close> for
  the thief stealing from it.
\<close>

fun pop_steal_race ::
    "Scheduler \<Rightarrow> nat \<Rightarrow> bool list \<Rightarrow> pop_pc \<Rightarrow> steal_pc \<Rightarrow> Scheduler \<times> pop_pc \<times> steal_pc" where
  "pop_steal_race s i [] p q = (s, p, q)"
| "pop_steal_race s i (True # sch) p q =
     (let (p', s') = pop_step s i p in pop_steal_race s' i sch p' q)"
| "pop_steal_race s i (False # sch) p q =
     (let (q', s') = steal_step s i q in pop_steal_race s' i sch p q')"

subsection \<open>Channel invariants and contents\<close>

text \<open>The invariant as the specification words it (I2).\<close>

definition chan_inv :: "'a Channel \<Rightarrow> bool" where
  "chan_inv C \<longleftrightarrow>
     0 \<le> uint (count C) \<and> count C \<le> capacity C \<and> head C < capacity C \<and> tail C < capacity C
     \<and> (count C \<noteq> capacity C \<longrightarrow>
          (uint (tail C) - uint (head C) + uint (capacity C)) mod uint (capacity C)
            = uint (count C))"

text \<open>
  The inductive form: the buffer has \<open>capacity\<close> cells and \<open>tail\<close> is \<open>count\<close> cells
  after \<open>head\<close> around the ring, also when the ring is full.
\<close>

definition chan_wf :: "'a Channel \<Rightarrow> bool" where
  "chan_wf C \<longleftrightarrow>
     length (buffer C) = unat (capacity C)
     \<and> unat (count C) \<le> unat (capacity C)
     \<and> unat (head C) < unat (capacity C)
     \<and> unat (tail C) = (unat (head C) + unat (count C)) mod unat (capacity C)"

text \<open>Legions park only through the scheduler: without one both park lists are empty.\<close>

definition chan_ok :: "'a world \<Rightarrow> chan_ptr \<Rightarrow> bool" where
  "chan_ok w c \<longleftrightarrow>
     chan_wf (channels w c)
     \<and> (g_scheduler w = None \<longrightarrow>
          blocked_senders (channels w c) = None \<and> blocked_receivers (channels w c) = None)"

text \<open>The buffered values, oldest first.\<close>

definition chan_contents :: "'a Channel \<Rightarrow> 'a list" where
  "chan_contents C =
     map (\<lambda>k. buffer C ! ((unat (head C) + k) mod unat (capacity C))) [0..<unat (count C)]"

subsection \<open>Sequences of channel operations\<close>

text \<open>
  One entry per critical section: a send or recv by the thread whose thread-local
  slot is \<open>tls\<close> (a parked or waiting call comes back as a later entry), a try_send, a
  try_recv (with the flag for a \<open>NULL\<close> out-parameter), or a close.
\<close>

datatype 'a chan_op =
  Op_send int 'a | Op_recv int | Op_try_send 'a | Op_try_recv bool | Op_close

fun world_of :: "('r, 'w) outcome \<Rightarrow> 'w option" where
  "world_of (Returned r w) = Some w"
| "world_of (Parked w) = Some w"
| "world_of (Waiting w) = Some w"
| "world_of Fault = None"

fun apply_op :: "'a world \<Rightarrow> chan_ptr \<Rightarrow> 'a chan_op \<Rightarrow> 'a world option" where
  "apply_op w c (Op_send tls v) = world_of (runtime_channel_send w tls (Some c) v)"
| "apply_op w c (Op_recv tls) = world_of (runtime_channel_recv w tls (Some c))"
| "apply_op w c (Op_try_send v) = world_of (runtime_channel_try_send w (Some c) v)"
| "apply_op w c (Op_try_recv value_null) = world_of (runtime_channel_try_recv w (Some c) value_null)"
| "apply_op w c Op_close = Some (runtime_channel_close w (Some c))"

fun run_ops :: "'a world \<Rightarrow> chan_ptr \<Rightarrow> 'a chan_op list \<Rightarrow> 'a world option" where
  "run_ops w c [] = Some w"
| "run_ops w c (op # ops) =
     (case apply_op w c op of None \<Rightarrow> None | Some w' \<Rightarrow> run_ops w' c ops)"

text \<open>
  One sender and one receiver on channel \<open>c\<close>. The sender still has \<open>pending\<close> to send,
  the receiver still has \<open>m\<close> receives to make and has obtained \<open>got\<close>. The schedule
  names who enters the critical section next (\<open>True\<close> for the sender) and under which
  thread-local slot; a call that parked or waits is retried when its side is scheduled
  again.
\<close>

fun spsc_run ::
    "'a world \<Rightarrow> chan_ptr \<Rightarrow> (bool \<times> int) list \<Rightarrow> 'a list \<Rightarrow> nat \<Rightarrow> 'a option list
       \<Rightarrow> ('a world \<times> 'a list \<times> nat \<times> 'a option list) option" where
  "spsc_run w c [] pending m got = Some (w, pending, m, got)"
| "spsc_run w c ((True, tls) # sch) [] m got = spsc_run w c sch [] m got"
| "spsc_run w c ((True, tls) # sch) (v # vs) m got =
     (case runtime_channel_send w tls (Some c) v of
        Returned u w' \<Rightarrow> spsc_run w' c sch vs m got
      | Parked w' \<Rightarrow> spsc_run w' c sch (v # vs) m got
      | Waiting w' \<Rightarrow> spsc_run w' c sch (v # vs) m got
      | Fault \<Rightarrow> None)"
| "spsc_run w c ((False, tls) # sch) pending 0 got = spsc_run w c sch pending 0 got"
| "spsc_run w c ((False, tls) # sch) pending (Suc m) got =
     (case runtime_channel_recv w tls (Some c) of
        Returned r w' \<Rightarrow> spsc_run w' c sch pending m (got @ [r])
      | Parked w' \<Rightarrow> spsc_run w' c sch pending (Suc m) got
      | Waiting w' \<Rightarrow> spsc_run w' c sch pending (Suc m) got
      | Fault \<Rightarrow> None)"

text \<open>Consecutive receives, each of which has to return; the results in order.\<close>

fun recv_seq :: "'a world \<Rightarrow> chan_ptr \<Rightarrow> int list \<Rightarrow> ('a option list \<times> 'a world) option" where
  "recv_seq w c [] = Some ([], w)"
| "recv_seq w c (tls # ts) =
     (case runtime_channel_recv w tls (Some c) of
        Returned r w' \<Rightarrow>
          (case recv_seq w' c ts of None \<Rightarrow> None | Some (rs, w'') \<Rightarrow> Some (r # rs, w''))
      | Parked w' \<Rightarrow> None
      | Waiting w' \<Rightarrow> None
      | Fault \<Rightarrow> None)"

subsection \<open>Park lists\<close>

text \<open>The chain of \<open>next\<close> pointers from \<open>p\<close> visits exactly \<open>xs\<close> and ends in \<open>NULL\<close>.\<close>

fun park_list :: "(legion_ptr \<Rightarrow> Legion) \<Rightarrow> legion_ptr option \<Rightarrow> legion_ptr list \<Rightarrow> bool" where
  "park_list h p [] = (p = None)"
| "park_list h p (x # xs) = (p = Some x \<and> park_list h (next (h x)) xs)"

subsection \<open>Concrete states\<close>

definition pf0 :: platform where
  "pf0 = \<lparr>target = X86_64, legion_trampoline = 4096, legion_entry = 8192\<rparr>"

definition legion_zero :: Legion where
  "legion_zero =
     \<lparr>fn = 0, arg = 0, stack = 0, stack_base = 0, stack_size = 0, stack_cap = 0,
      ctx = zero_context pf0, ctx_saved = zero_context pf0, state = LEGION_STATE_RUNNABLE,
      next = None, blocked_on = None, legion_id = 0, thread_id = 0, stack_overflow = 0\<rparr>"

definition chan_zero :: "nat Channel" where
  "chan_zero =
     \<lparr>buffer = [], elem_size = 0, capacity = 0, head = 0, tail = 0, count = 0, closed = 0,
      blocked_senders = None, blocked_receivers = None\<rparr>"

text \<open>A process before \<open>runtime_scheduler_init\<close>, with a zeroed heap.\<close>

definition world0 :: "nat world" where
  "world0 =
     \<lparr>g_scheduler = None, g_legion_id_counter = 0, legions = (\<lambda>p. legion_zero),
      channels = (\<lambda>p. chan_zero), next_alloc = 1\<rparr>"

text \<open>Every worker's ring holds 255 legions: slot \<open>k\<close> of worker \<open>i\<close> holds legion \<open>1000 * i + k\<close>.\<close>

definition sched_full :: Scheduler where
  "sched_full =
     \<lparr>num_threads = 4, run_queue = (\<lambda>i k. if k < 255 then Some (1000 * i + k) else None),
      queue_head = (\<lambda>i. 0), queue_tail = (\<lambda>i. 255), active_legions = 1020,
      shutdown = 0, current_legion = (\<lambda>i. None)\<rparr>"

definition world_full :: "nat world" where
  "world_full = world0\<lparr>g_scheduler := Some sched_full\<rparr>"

text \<open>Worker 0 holds the single legion 5 in slot 0.\<close>

definition sched_one :: Scheduler where
  "sched_one =
     \<lparr>num_threads = 4, run_queue = (\<lambda>i k. if i = 0 \<and> k = 0 then Some 5 else None),
      queue_head = (\<lambda>i. 0), queue_tail = (\<lambda>i. if i = 0 then 1 else 0), active_legions = 1,
      shutdown = 0, current_legion = (\<lambda>i. None)\<rparr>"

text \<open>The state a sequence of operations leads to (the start state if it leaves defined behaviour).\<close>

definition world_after :: "'a world \<Rightarrow> chan_ptr \<Rightarrow> 'a chan_op list \<Rightarrow> 'a world" where
  "world_after w c ops = (case run_ops w c ops of Some w' \<Rightarrow> w' | None \<Rightarrow> w)"

text \<open>Three values sent on a channel of capacity 4, then close (scenario S3).\<close>

definition world_s3 :: "nat world" where
  "world_s3 = world_after (snd (runtime_channel_new world0 8 4)) 1
                 [Op_try_send 1, Op_try_send 2, Op_try_send 3, Op_close]"

text \<open>
  A scheduler whose workers 1 and 2 are running legions 11 and 12, and the states
  reached from it on a channel of capacity 1: full with legion 11 parked in send,
  full with 12 parked after 11, and empty with 11 parked in recv.
\<close>

definition sched_running :: Scheduler where
  "sched_running =
     \<lparr>num_threads = 4, run_queue = (\<lambda>i k. None), queue_head = (\<lambda>i. 0), queue_tail = (\<lambda>i. 0),
      active_legions = 2, shutdown = 0,
      current_legion = (\<lambda>i. if i = 1 then Some 11 else if i = 2 then Some 12 else None)\<rparr>"

definition world_running :: "nat world" where
  "world_running =
     world0\<lparr>g_scheduler := Some sched_running,
            legions := (\<lambda>p. if p = 11 then legion_zero\<lparr>state := LEGION_STATE_RUNNING, thread_id := 1\<rparr>
                             else if p = 12 then legion_zero\<lparr>state := LEGION_STATE_RUNNING, thread_id := 2\<rparr>
                             else legion_zero)\<rparr>"

definition world_one_parked :: "nat world" where
  "world_one_parked =
     world_after (snd (runtime_channel_new world_running 8 1)) 1 [Op_try_send 7, Op_send 1 8]"

definition world_two_parked :: "nat world" where
  "world_two_parked =
     world_after (snd (runtime_channel_new world_running 8 1)) 1
       [Op_try_send 7, Op_send 1 8, Op_send 2 9]"

definition world_recv_parked :: "nat world" where
  "world_recv_parked =
     world_after (snd (runtime_channel_new world_running 8 1)) 1 [Op_recv 1]"

text \<open>
  Worker 0 running legion 10, with a channel of capacity 1: empty, and full.
\<close>

definition sched_worker0 :: Scheduler where
  "sched_worker0 =
     \<lparr>num_threads = 4, run_queue = (\<lambda>i k. None), queue_head = (\<lambda>i. 0), queue_tail = (\<lambda>i. 0),
      active_legions = 1, shutdown = 0,
      current_legion = (\<lambda>i. if i = 0 then Some 10 else None)\<rparr>"

definition world_worker0 :: "nat world" where
  "world_worker0 =
     world0\<lparr>g_scheduler := Some sched_worker0,
            legions := (\<lambda>p. if p = 10 then legion_zero\<lparr>state := LEGION_STATE_RUNNING, thread_id := 0\<rparr>
                             else legion_zero)\<rparr>"

definition world_worker0_empty :: "nat world" where
  "world_worker0_empty = snd (runtime_channel_new world_worker0 8 1)"

definition world_worker0_full :: "nat world" where
  "world_worker0_full = world_after world_worker0_empty 1 [Op_try_send 7]"

text \<open>
  Every ring full, and legion 9999 parked as the only blocked sender of a full channel
  of capacity 1 (its worker's \<open>current_legion\<close> slot cleared and \<open>active_legions\<close>
  decremented by \<open>runtime_legion_block\<close>).
\<close>

definition world_full_parked :: "nat world" where
  "world_full_parked =
     world0\<lparr>g_scheduler := Some (sched_full\<lparr>active_legions := 1019\<rparr>),
            legions := (\<lambda>p. if p = 9999
                             then legion_zero\<lparr>state := LEGION_STATE_BLOCKED, blocked_on := Some 1,
                                              thread_id := - 1\<rparr>
                             else legion_zero),
            channels := (\<lambda>p. if p = 1
                              then \<lparr>buffer = [7], elem_size = 8, capacity = 1, head = 0, tail = 0,
                                    count = 1, closed = 0, blocked_senders = Some 9999,
                                    blocked_receivers = None\<rparr>
                              else chan_zero)\<rparr>"

section \<open>The scheduler calls leave channels alone\<close>

lemma start_channels [simp]: "channels (runtime_legion_start w l) = channels w"
  by (simp add: runtime_legion_start_def Let_def split: option.splits prod.splits)

lemma start_legions [simp]: "legions (runtime_legion_start w l) = legions w"
  by (simp add: runtime_legion_start_def Let_def split: option.splits prod.splits)

lemma start_next_alloc [simp]: "next_alloc (runtime_legion_start w l) = next_alloc w"
  by (simp add: runtime_legion_start_def Let_def split: option.splits prod.splits)

lemma start_sched_None [simp]:
  "(g_scheduler (runtime_legion_start w l) = None) = (g_scheduler w = None)"
  by (simp add: runtime_legion_start_def Let_def split: option.splits prod.splits)

lemma start_sched_Some [simp]:
  "(\<exists>y. g_scheduler (runtime_legion_start w l) = Some y) = (\<exists>y. g_scheduler w = Some y)"
  by (metis not_None_eq start_sched_None)

lemma unblock_frame:
  assumes "unblock_legion_from_channel w l = Some w'"
  shows "channels w' = channels w" and "next_alloc w' = next_alloc w"
    and "(g_scheduler w' = None) = (g_scheduler w = None)"
    and "\<And>p. next (legions w' p) = next (legions w p)"
  using assms
  by (auto simp: unblock_legion_from_channel_def Let_def split: option.splits if_splits)

lemma unblock_total:
  assumes "g_scheduler w \<noteq> None"
  shows "\<exists>w'. unblock_legion_from_channel w l = Some w'"
  using assms
  by (auto simp: unblock_legion_from_channel_def Let_def split: option.splits if_splits)

lemma block_frame:
  assumes "runtime_legion_block w tls l ch = Some w'"
  shows "channels w' = channels w" and "next_alloc w' = next_alloc w"
    and "(g_scheduler w' = None) = (g_scheduler w = None)"
    and "\<And>p. next (legions w' p) = next (legions w p)"
  using assms
  by (auto simp: runtime_legion_block_def Let_def split: option.splits if_splits)

lemma block_total:
  assumes "g_scheduler w \<noteq> None"
  shows "\<exists>w'. runtime_legion_block w tls l ch = Some w'"
  using assms
  by (auto simp: runtime_legion_block_def Let_def split: option.splits if_splits)

lemma current_legion_sched:
  "runtime_get_current_legion w tls = Some l \<Longrightarrow> g_scheduler w \<noteq> None"
  by (auto simp: runtime_get_current_legion_def split: option.splits)

section \<open>Ring arithmetic\<close>

lemma unat_succ_below:
  fixes a b :: "'a::len word"
  assumes "a < b"
  shows "unat (a + 1) = Suc (unat a)"
proof -
  have "unat a < unat b" using assms by (simp add: word_less_nat_alt)
  moreover have "unat b < 2 ^ LENGTH('a)" by (rule unsigned_less)
  ultimately have "Suc (unat a) < 2 ^ LENGTH('a)" by linarith
  then have "unat a + unat (1::'a word) < 2 ^ LENGTH('a)" by simp
  then have "unat (a + 1) = unat a + unat (1::'a word)"
    by (simp only: unat_add_lem)
  then show ?thesis by simp
qed

lemma ring_distinct:
  fixes h k n c :: nat
  assumes "k < n" "n < c"
  shows "(h + k) mod c \<noteq> (h + n) mod c"
proof
  assume eq: "(h + k) mod c = (h + n) mod c"
  have "h + k \<le> h + n" using assms by simp
  with eq have "c dvd (h + n) - (h + k)"
    by (metis mod_eq_dvd_iff_nat)
  then have "c dvd n - k" by simp
  moreover have "0 < n - k" "n - k < c" using assms by simp_all
  ultimately show False by (meson nat_dvd_not_less)
qed

section \<open>Enqueue and dequeue on a well-formed channel\<close>

lemma chan_wf_tail_less:
  assumes "chan_wf C"
  shows "unat (tail C) < unat (capacity C)" and "head C < capacity C" and "tail C < capacity C"
    and "capacity C \<noteq> 0" and "unat (head C) < length (buffer C)"
    and "unat (tail C) < length (buffer C)"
  using assms by (auto simp: chan_wf_def word_less_nat_alt)

lemma enq_step:
  assumes wf: "chan_wf C" and lt: "count C < capacity C"
    and b: "buffer C' = (buffer C)[unat (tail C) := v]"
    and t: "tail C' = (tail C + 1) mod capacity C"
    and n: "count C' = count C + 1"
    and h: "head C' = head C" and cap: "capacity C' = capacity C"
  shows "chan_wf C'" and "chan_contents C' = chan_contents C @ [v]"
proof -
  let ?c = "unat (capacity C)" and ?h = "unat (head C)" and ?n = "unat (count C)"
  have tl: "unat (tail C) = (?h + ?n) mod ?c" and hc: "?h < ?c" and len: "length (buffer C) = ?c"
    using wf by (simp_all add: chan_wf_def)
  have nc: "?n < ?c" using lt by (simp add: word_less_nat_alt)
  have n': "unat (count C') = Suc ?n" using n lt by (simp add: unat_succ_below)
  have "unat (tail C + 1) = Suc (unat (tail C))"
    using chan_wf_tail_less(3) [OF wf] by (rule unat_succ_below)
  then have t': "unat (tail C') = (?h + Suc ?n) mod ?c"
    using t tl by (simp add: unat_mod mod_Suc_eq)
  show "chan_wf C'"
    using len hc nc n' t' by (simp add: chan_wf_def b h cap)
  have old: "buffer C' ! ((?h + k) mod ?c) = buffer C ! ((?h + k) mod ?c)" if "k < ?n" for k
    using ring_distinct [OF that nc, of ?h] by (simp add: b tl)
  have new: "buffer C' ! ((?h + ?n) mod ?c) = v"
    using hc len by (simp add: b tl)
  show "chan_contents C' = chan_contents C @ [v]"
    using old new by (simp add: chan_contents_def n' h cap)
qed

lemma deq_step:
  assumes wf: "chan_wf C" and nz: "count C \<noteq> 0"
    and b: "buffer C' = buffer C"
    and hd': "head C' = (head C + 1) mod capacity C"
    and n: "count C' = count C - 1"
    and t: "tail C' = tail C" and cap: "capacity C' = capacity C"
  shows "chan_wf C'" and "chan_contents C = buffer C ! unat (head C) # chan_contents C'"
proof -
  let ?c = "unat (capacity C)" and ?h = "unat (head C)" and ?n = "unat (count C)"
  have tl: "unat (tail C) = (?h + ?n) mod ?c" and hc: "?h < ?c" and len: "length (buffer C) = ?c"
    and nle: "?n \<le> ?c"
    using wf by (simp_all add: chan_wf_def)
  have npos: "0 < ?n" using nz by (simp add: unat_gt_0)
  have n': "unat (count C') = ?n - 1" using n nz by (simp add: unat_minus_one)
  have "unat (head C + 1) = Suc ?h"
    using chan_wf_tail_less(2) [OF wf] by (rule unat_succ_below)
  then have h': "unat (head C') = Suc ?h mod ?c"
    using hd' by (simp add: unat_mod)
  have shift: "(Suc ?h mod ?c + k) mod ?c = (?h + Suc k) mod ?c" for k
    by (simp add: mod_add_left_eq)
  have "(?h + ?n) mod ?c = (Suc ?h mod ?c + (?n - 1)) mod ?c"
    using npos shift [of "?n - 1"] by simp
  then show "chan_wf C'"
    using len hc nle npos n' h' tl by (simp add: chan_wf_def b t cap)
  have "[0..<?n] = 0 # map Suc [0..<?n - 1]"
    using npos by (metis Suc_pred' map_Suc_upt upt_conv_Cons)
  then have "chan_contents C
      = buffer C ! (?h mod ?c) # map (\<lambda>k. buffer C ! ((?h + Suc k) mod ?c)) [0..<?n - 1]"
    by (simp add: chan_contents_def comp_def)
  then show "chan_contents C = buffer C ! unat (head C) # chan_contents C'"
    using hc by (simp add: chan_contents_def n' h' b cap shift)
qed

lemma same_step:
  assumes "buffer C' = buffer C" "head C' = head C" "count C' = count C" "tail C' = tail C"
    "capacity C' = capacity C"
  shows "chan_wf C' = chan_wf C" and "chan_contents C' = chan_contents C"
  using assms by (simp_all add: chan_wf_def chan_contents_def)

lemma chan_contents_length: "length (chan_contents C) = unat (count C)"
  by (simp add: chan_contents_def)

lemma chan_wf_inv:
  assumes "chan_wf C"
  shows "chan_inv C"
proof -
  let ?c = "unat (capacity C)" and ?h = "unat (head C)" and ?n = "unat (count C)"
  have tl: "unat (tail C) = (?h + ?n) mod ?c" and hc: "?h < ?c" and nle: "?n \<le> ?c"
    using assms by (simp_all add: chan_wf_def)
  have tc: "unat (tail C) < ?c" using chan_wf_tail_less(1) [OF assms] .
  have ring: "(int (unat (tail C)) - int ?h + int ?c) mod int ?c = int ?n" if "?n \<noteq> ?c"
  proof -
    have nlt: "?n < ?c" using that nle by simp
    have "(int (unat (tail C)) - int ?h + int ?c) mod int ?c
        = (int ((?h + ?n) mod ?c) - int ?h) mod int ?c"
      by (simp only: tl mod_add_self2)
    also have "\<dots> = (int (?h + ?n) mod int ?c - int ?h) mod int ?c"
      by (simp only: zmod_int)
    also have "\<dots> = (int (?h + ?n) - int ?h) mod int ?c"
      by (simp only: mod_diff_left_eq)
    also have "\<dots> = int ?n mod int ?c" by (simp only: of_nat_add add_diff_cancel_left')
    also have "\<dots> = int (?n mod ?c)" by (simp only: zmod_int)
    also have "\<dots> = int ?n" using nlt by (simp only: mod_less)
    finally show ?thesis .
  qed
  have ne: "?n \<noteq> ?c" if "count C \<noteq> capacity C"
    using that by (simp add: word_unat_eq_iff)
  have "count C \<noteq> capacity C \<longrightarrow>
      (uint (tail C) - uint (head C) + uint (capacity C)) mod uint (capacity C) = uint (count C)"
    unfolding uint_nat using ring ne by blast
  then show ?thesis
    using hc nle tc
    by (simp add: chan_inv_def word_le_nat_alt word_less_nat_alt)
qed

section \<open>The branches of send and recv\<close>

lemma unblock_legions:
  assumes "unblock_legion_from_channel w (Some l) = Some w'"
  shows "legions w' =
     (if state (legions w l) = LEGION_STATE_BLOCKED
      then (legions w)(l := (legions w l)\<lparr>state := LEGION_STATE_RUNNABLE, blocked_on := None\<rparr>)
      else legions w)"
  using assms
  by (auto simp: unblock_legion_from_channel_def Let_def split: option.splits if_splits)

lemma block_legions:
  assumes "runtime_legion_block w tls (Some l) ch = Some w'"
  shows "state (legions w' l) = LEGION_STATE_BLOCKED" and "blocked_on (legions w' l) = ch"
    and "\<And>p. p \<noteq> l \<Longrightarrow> legions w' p = legions w p"
  using assms
  by (auto simp: runtime_legion_block_def Let_def split: option.splits if_splits)

lemma send_shut:
  assumes "closed (channels w c) \<noteq> 0"
  shows "runtime_channel_send w tls (Some c) v = Returned () w"
  using assms by (simp add: runtime_channel_send_def Let_def)

lemma send_wait:
  assumes "capacity (channels w c) \<le> count (channels w c)" "closed (channels w c) = 0"
    "runtime_get_current_legion w tls = None"
  shows "runtime_channel_send w tls (Some c) v = Waiting w"
  using assms by (simp add: runtime_channel_send_def Let_def)

lemma send_park:
  assumes full: "capacity (channels w c) \<le> count (channels w c)"
    and op: "closed (channels w c) = 0"
    and cur: "runtime_get_current_legion w tls = Some l"
  shows "\<exists>w'. runtime_channel_send w tls (Some c) v = Parked w'
     \<and> channels w' = (channels w)(c := (channels w c)\<lparr>blocked_senders := Some l\<rparr>)
     \<and> next (legions w' l) = blocked_senders (channels w c)
     \<and> (\<forall>p. p \<noteq> l \<longrightarrow> legions w' p = legions w p)
     \<and> state (legions w' l) = LEGION_STATE_BLOCKED
     \<and> blocked_on (legions w' l) = Some c
     \<and> g_scheduler w' \<noteq> None \<and> next_alloc w' = next_alloc w"
proof -
  let ?w1 = "w\<lparr>legions := (legions w)(l := (legions w l)\<lparr>next := blocked_senders (channels w c)\<rparr>),
                channels := (channels w)(c := (channels w c)\<lparr>blocked_senders := Some l\<rparr>)\<rparr>"
  have s: "g_scheduler ?w1 \<noteq> None" using current_legion_sched [OF cur] by simp
  obtain w2 where b: "runtime_legion_block ?w1 tls (Some l) (Some c) = Some w2"
    using block_total [OF s] by blast
  have "runtime_channel_send w tls (Some c) v = Parked w2"
    using full op cur b by (simp add: runtime_channel_send_def Let_def)
  moreover have "channels w2 = channels ?w1" "next_alloc w2 = next_alloc ?w1"
    "g_scheduler w2 \<noteq> None" "next (legions w2 l) = next (legions ?w1 l)"
    using block_frame [OF b] s by simp_all
  moreover have "state (legions w2 l) = LEGION_STATE_BLOCKED" "blocked_on (legions w2 l) = Some c"
    "\<And>p. p \<noteq> l \<Longrightarrow> legions w2 p = legions ?w1 p"
    using block_legions [OF b] by simp_all
  ultimately show ?thesis by simp
qed

lemma send_enq_nowake:
  assumes "closed (channels w c) = 0" "count (channels w c) < capacity (channels w c)"
    "unat (tail (channels w c)) < length (buffer (channels w c))"
    "blocked_receivers (channels w c) = None"
  shows "runtime_channel_send w tls (Some c) v =
     Returned () (w\<lparr>channels := (channels w)(c := (channels w c)
        \<lparr>buffer := (buffer (channels w c))[unat (tail (channels w c)) := v],
         tail := (tail (channels w c) + 1) mod capacity (channels w c),
         count := count (channels w c) + 1\<rparr>)\<rparr>)"
  using assms by (simp add: runtime_channel_send_def Let_def not_le [symmetric])

lemma send_enq_wake:
  assumes op: "closed (channels w c) = 0" and lt: "count (channels w c) < capacity (channels w c)"
    and rng: "unat (tail (channels w c)) < length (buffer (channels w c))"
    and r: "blocked_receivers (channels w c) = Some r"
    and s: "g_scheduler w \<noteq> None"
  shows "\<exists>w'. runtime_channel_send w tls (Some c) v = Returned () w'
     \<and> channels w' = (channels w)(c := (channels w c)
        \<lparr>buffer := (buffer (channels w c))[unat (tail (channels w c)) := v],
         tail := (tail (channels w c) + 1) mod capacity (channels w c),
         count := count (channels w c) + 1,
         blocked_receivers := next (legions w r)\<rparr>)
     \<and> legions w' =
         (if state (legions w r) = LEGION_STATE_BLOCKED
          then (legions w)(r := (legions w r)\<lparr>next := None, state := LEGION_STATE_RUNNABLE,
                                               blocked_on := None\<rparr>)
          else (legions w)(r := (legions w r)\<lparr>next := None\<rparr>))
     \<and> g_scheduler w' \<noteq> None \<and> next_alloc w' = next_alloc w"
proof -
  let ?C1 = "(channels w c)
        \<lparr>buffer := (buffer (channels w c))[unat (tail (channels w c)) := v],
         tail := (tail (channels w c) + 1) mod capacity (channels w c),
         count := count (channels w c) + 1\<rparr>"
  let ?w2 = "w\<lparr>channels := (channels w)(c := ?C1\<lparr>blocked_receivers := next (legions w r)\<rparr>),
                legions := (legions w)(r := (legions w r)\<lparr>next := None\<rparr>)\<rparr>"
  have s2: "g_scheduler ?w2 \<noteq> None" using s by simp
  obtain w3 where u: "unblock_legion_from_channel ?w2 (Some r) = Some w3"
    using unblock_total [OF s2] by blast
  have "runtime_channel_send w tls (Some c) v = Returned () w3"
    using op lt rng r u by (simp add: runtime_channel_send_def Let_def not_le [symmetric])
  moreover have "channels w3 = channels ?w2" "next_alloc w3 = next_alloc ?w2" "g_scheduler w3 \<noteq> None"
    using unblock_frame [OF u] s2 by simp_all
  moreover have "legions w3 =
         (if state (legions w r) = LEGION_STATE_BLOCKED
          then (legions w)(r := (legions w r)\<lparr>next := None, state := LEGION_STATE_RUNNABLE,
                                               blocked_on := None\<rparr>)
          else (legions w)(r := (legions w r)\<lparr>next := None\<rparr>))"
    using unblock_legions [OF u] by simp
  ultimately show ?thesis by simp
qed

lemma recv_wait:
  assumes "count (channels w c) = 0" "closed (channels w c) = 0"
    "runtime_get_current_legion w tls = None"
  shows "runtime_channel_recv w tls (Some c) = Waiting w"
  using assms by (simp add: runtime_channel_recv_def Let_def)

lemma recv_park:
  assumes emp: "count (channels w c) = 0"
    and op: "closed (channels w c) = 0"
    and cur: "runtime_get_current_legion w tls = Some l"
  shows "\<exists>w'. runtime_channel_recv w tls (Some c) = Parked w'
     \<and> channels w' = (channels w)(c := (channels w c)\<lparr>blocked_receivers := Some l\<rparr>)
     \<and> next (legions w' l) = blocked_receivers (channels w c)
     \<and> (\<forall>p. p \<noteq> l \<longrightarrow> legions w' p = legions w p)
     \<and> state (legions w' l) = LEGION_STATE_BLOCKED
     \<and> blocked_on (legions w' l) = Some c
     \<and> g_scheduler w' \<noteq> None \<and> next_alloc w' = next_alloc w"
proof -
  let ?w1 = "w\<lparr>legions := (legions w)(l := (legions w l)\<lparr>next := blocked_receivers (channels w c)\<rparr>),
                channels := (channels w)(c := (channels w c)\<lparr>blocked_receivers := Some l\<rparr>)\<rparr>"
  have s: "g_scheduler ?w1 \<noteq> None" using current_legion_sched [OF cur] by simp
  obtain w2 where b: "runtime_legion_block ?w1 tls (Some l) (Some c) = Some w2"
    using block_total [OF s] by blast
  have "runtime_channel_recv w tls (Some c) = Parked w2"
    using emp op cur b by (simp add: runtime_channel_recv_def Let_def)
  moreover have "channels w2 = channels ?w1" "next_alloc w2 = next_alloc ?w1"
    "g_scheduler w2 \<noteq> None" "next (legions w2 l) = next (legions ?w1 l)"
    using block_frame [OF b] s by simp_all
  moreover have "state (legions w2 l) = LEGION_STATE_BLOCKED" "blocked_on (legions w2 l) = Some c"
    "\<And>p. p \<noteq> l \<Longrightarrow> legions w2 p = legions ?w1 p"
    using block_legions [OF b] by simp_all
  ultimately show ?thesis by simp
qed

lemma recv_closed_empty:
  assumes "count (channels w c) = 0" "closed (channels w c) \<noteq> 0"
  shows "runtime_channel_recv w tls (Some c) = Returned None w"
  using assms by (simp add: runtime_channel_recv_def Let_def)

lemma recv_deq_nowake:
  assumes "count (channels w c) \<noteq> 0" "capacity (channels w c) \<noteq> 0"
    "unat (head (channels w c)) < length (buffer (channels w c))"
    "blocked_senders (channels w c) = None"
  shows "runtime_channel_recv w tls (Some c) =
     Returned (Some (buffer (channels w c) ! unat (head (channels w c))))
       (w\<lparr>next_alloc := Suc (next_alloc w),
          channels := (channels w)(c := (channels w c)
            \<lparr>head := (head (channels w c) + 1) mod capacity (channels w c),
             count := count (channels w c) - 1\<rparr>)\<rparr>)"
  using assms by (simp add: runtime_channel_recv_def runtime_alloc_def Let_def not_le [symmetric])

lemma recv_deq_wake:
  assumes nz: "count (channels w c) \<noteq> 0" and cz: "capacity (channels w c) \<noteq> 0"
    and rng: "unat (head (channels w c)) < length (buffer (channels w c))"
    and r: "blocked_senders (channels w c) = Some r"
    and s: "g_scheduler w \<noteq> None"
  shows "\<exists>w'. runtime_channel_recv w tls (Some c) =
         Returned (Some (buffer (channels w c) ! unat (head (channels w c)))) w'
     \<and> channels w' = (channels w)(c := (channels w c)
        \<lparr>head := (head (channels w c) + 1) mod capacity (channels w c),
         count := count (channels w c) - 1,
         blocked_senders := next (legions w r)\<rparr>)
     \<and> legions w' =
         (if state (legions w r) = LEGION_STATE_BLOCKED
          then (legions w)(r := (legions w r)\<lparr>next := None, state := LEGION_STATE_RUNNABLE,
                                               blocked_on := None\<rparr>)
          else (legions w)(r := (legions w r)\<lparr>next := None\<rparr>))
     \<and> g_scheduler w' \<noteq> None \<and> next_alloc w' = Suc (next_alloc w)"
proof -
  let ?C1 = "(channels w c)
        \<lparr>head := (head (channels w c) + 1) mod capacity (channels w c),
         count := count (channels w c) - 1\<rparr>"
  let ?w2 = "w\<lparr>next_alloc := Suc (next_alloc w),
                channels := (channels w)(c := ?C1\<lparr>blocked_senders := next (legions w r)\<rparr>),
                legions := (legions w)(r := (legions w r)\<lparr>next := None\<rparr>)\<rparr>"
  have s2: "g_scheduler ?w2 \<noteq> None" using s by simp
  obtain w3 where u: "unblock_legion_from_channel ?w2 (Some r) = Some w3"
    using unblock_total [OF s2] by blast
  have "runtime_channel_recv w tls (Some c) =
      Returned (Some (buffer (channels w c) ! unat (head (channels w c)))) w3"
    using nz cz rng r u
    by (simp add: runtime_channel_recv_def runtime_alloc_def Let_def not_le [symmetric])
  moreover have "channels w3 = channels ?w2" "next_alloc w3 = next_alloc ?w2" "g_scheduler w3 \<noteq> None"
    using unblock_frame [OF u] s2 by simp_all
  moreover have "legions w3 =
         (if state (legions w r) = LEGION_STATE_BLOCKED
          then (legions w)(r := (legions w r)\<lparr>next := None, state := LEGION_STATE_RUNNABLE,
                                               blocked_on := None\<rparr>)
          else (legions w)(r := (legions w r)\<lparr>next := None\<rparr>))"
    using unblock_legions [OF u] by simp
  ultimately show ?thesis by simp
qed

text \<open>
  After a legion has parked itself, the worker's \<open>current_legion\<close> slot is already
  cleared, so the \<open>runtime_legion_yield\<close> that follows returns at once.
\<close>

lemma block_clears_current:
  assumes "runtime_legion_block w tls (Some l) ch = Some w'"
  shows "runtime_get_current_legion w' tls = None"
  using assms
  by (auto simp: runtime_legion_block_def runtime_get_current_legion_def Let_def
      split: option.splits if_splits)

lemma yield_no_current:
  assumes "g_scheduler w \<noteq> None" and "runtime_get_current_legion w tls = None"
  shows "runtime_legion_yield w tls = Some w"
  using assms
  by (auto simp: runtime_legion_yield_def runtime_get_current_legion_def Let_def
      split: option.splits if_splits)

lemma block_Some_sched:
  assumes "runtime_legion_block w tls (Some l) ch = Some w'"
  shows "g_scheduler w' \<noteq> None"
  using assms
  by (auto simp: runtime_legion_block_def Let_def split: option.splits if_splits)

lemma send_Parked_block:
  assumes "runtime_channel_send w tls (Some c) v = Parked w'"
  shows "\<exists>w1 l. runtime_legion_block w1 tls (Some l) (Some c) = Some w'"
  using assms
  by (auto simp: runtime_channel_send_def Let_def split: option.splits if_splits)

lemma recv_Parked_block:
  assumes "runtime_channel_recv w tls (Some c) = Parked w'"
  shows "\<exists>w1 l. runtime_legion_block w1 tls (Some l) (Some c) = Some w'"
  using assms
  by (auto simp: runtime_channel_recv_def Let_def split: option.splits if_splits prod.splits)

lemma yield_after_park:
  "runtime_channel_send w tls (Some c) v = Parked w' \<Longrightarrow> runtime_legion_yield w' tls = Some w'"
  "runtime_channel_recv w tls (Some c) = Parked w' \<Longrightarrow> runtime_legion_yield w' tls = Some w'"
  using send_Parked_block [of w tls c v w'] recv_Parked_block [of w tls c w']
    block_clears_current block_Some_sched yield_no_current
  by blast+

section \<open>What each operation does to the buffered values\<close>

lemma send_effect:
  assumes ok: "chan_ok w c"
  shows "\<exists>w'. (runtime_channel_send w tls (Some c) v = Returned () w'
                \<and> chan_contents (channels w' c) =
                    (if closed (channels w c) \<noteq> 0 then chan_contents (channels w c)
                     else chan_contents (channels w c) @ [v])
              \<or> (runtime_channel_send w tls (Some c) v = Parked w'
                  \<or> runtime_channel_send w tls (Some c) v = Waiting w')
                \<and> chan_contents (channels w' c) = chan_contents (channels w c)
                \<and> closed (channels w c) = 0
                \<and> capacity (channels w c) \<le> count (channels w c))
            \<and> chan_ok w' c
            \<and> closed (channels w' c) = closed (channels w c)
            \<and> capacity (channels w' c) = capacity (channels w c)"
proof -
  let ?C = "channels w c"
  have wf: "chan_wf ?C" using ok by (simp add: chan_ok_def)
  consider (wait) "capacity ?C \<le> count ?C" "closed ?C = 0" "runtime_get_current_legion w tls = None"
    | (park) l where "capacity ?C \<le> count ?C" "closed ?C = 0"
        "runtime_get_current_legion w tls = Some l"
    | (shut) "closed ?C \<noteq> 0"
    | (enq) "count ?C < capacity ?C" "closed ?C = 0" "blocked_receivers ?C = None"
    | (wake) r where "count ?C < capacity ?C" "closed ?C = 0" "blocked_receivers ?C = Some r"
    by (metis not_le option.exhaust)
  then show ?thesis
  proof cases
    case wait
    then show ?thesis using ok send_wait [of w c tls v] by auto
  next
    case (park l)
    from send_park [OF park, of v] obtain w' where
      s: "runtime_channel_send w tls (Some c) v = Parked w'"
      and ch: "channels w' = (channels w)(c := ?C\<lparr>blocked_senders := Some l\<rparr>)"
      and g: "g_scheduler w' \<noteq> None"
      by blast
    have "chan_wf (channels w' c)" "chan_contents (channels w' c) = chan_contents ?C"
      using wf same_step [of "channels w' c" ?C] by (simp_all add: ch)
    then show ?thesis using s g park(1,2) by (auto simp: chan_ok_def ch)
  next
    case shut
    then show ?thesis using ok send_shut [of w c tls v] by auto
  next
    case enq
    let ?C1 = "?C\<lparr>buffer := (buffer ?C)[unat (tail ?C) := v],
                   tail := (tail ?C + 1) mod capacity ?C, count := count ?C + 1\<rparr>"
    let ?w1 = "w\<lparr>channels := (channels w)(c := ?C1)\<rparr>"
    have s: "runtime_channel_send w tls (Some c) v = Returned () ?w1"
      using send_enq_nowake [OF enq(2) enq(1) chan_wf_tail_less(6) [OF wf] enq(3)] .
    have "chan_wf ?C1" "chan_contents ?C1 = chan_contents ?C @ [v]"
      using enq_step [OF wf enq(1), of ?C1 v] by simp_all
    then show ?thesis using s ok enq by (auto simp: chan_ok_def)
  next
    case (wake r)
    have g: "g_scheduler w \<noteq> None" using ok wake(3) by (auto simp: chan_ok_def)
    let ?C1 = "?C\<lparr>buffer := (buffer ?C)[unat (tail ?C) := v],
                   tail := (tail ?C + 1) mod capacity ?C, count := count ?C + 1,
                   blocked_receivers := next (legions w r)\<rparr>"
    from send_enq_wake [OF wake(2) wake(1) chan_wf_tail_less(6) [OF wf] wake(3) g, of tls v]
    obtain w' where s: "runtime_channel_send w tls (Some c) v = Returned () w'"
      and ch: "channels w' = (channels w)(c := ?C1)" and g': "g_scheduler w' \<noteq> None"
      by blast
    have "chan_wf ?C1" "chan_contents ?C1 = chan_contents ?C @ [v]"
      using enq_step [OF wf wake(1), of ?C1 v] by simp_all
    then show ?thesis using s g' wake(2) by (auto simp: chan_ok_def ch)
  qed
qed

lemma recv_effect:
  assumes ok: "chan_ok w c"
  shows "\<exists>w'. ((\<exists>r. runtime_channel_recv w tls (Some c) = Returned (Some r) w'
                    \<and> chan_contents (channels w c) = r # chan_contents (channels w' c))
              \<or> runtime_channel_recv w tls (Some c) = Returned None w'
                \<and> chan_contents (channels w c) = [] \<and> closed (channels w c) \<noteq> 0 \<and> w' = w
              \<or> (runtime_channel_recv w tls (Some c) = Parked w'
                  \<or> runtime_channel_recv w tls (Some c) = Waiting w')
                \<and> chan_contents (channels w' c) = chan_contents (channels w c)
                \<and> chan_contents (channels w c) = []
                \<and> closed (channels w c) = 0)
            \<and> chan_ok w' c
            \<and> closed (channels w' c) = closed (channels w c)
            \<and> capacity (channels w' c) = capacity (channels w c)"
proof -
  let ?C = "channels w c"
  have wf: "chan_wf ?C" using ok by (simp add: chan_ok_def)
  have emp: "chan_contents ?C = []" if "count ?C = 0"
    using that by (simp add: chan_contents_def)
  consider (wait) "count ?C = 0" "closed ?C = 0" "runtime_get_current_legion w tls = None"
    | (park) l where "count ?C = 0" "closed ?C = 0"
        "runtime_get_current_legion w tls = Some l"
    | (shut) "count ?C = 0" "closed ?C \<noteq> 0"
    | (deq) "count ?C \<noteq> 0" "blocked_senders ?C = None"
    | (wake) r where "count ?C \<noteq> 0" "blocked_senders ?C = Some r"
    by (metis option.exhaust)
  then show ?thesis
  proof cases
    case wait
    then show ?thesis using ok emp recv_wait [of w c tls] by auto
  next
    case (park l)
    from recv_park [OF park] obtain w' where
      s: "runtime_channel_recv w tls (Some c) = Parked w'"
      and ch: "channels w' = (channels w)(c := ?C\<lparr>blocked_receivers := Some l\<rparr>)"
      and g: "g_scheduler w' \<noteq> None"
      by blast
    have "chan_wf (channels w' c)" "chan_contents (channels w' c) = chan_contents ?C"
      using wf same_step [of "channels w' c" ?C] by (simp_all add: ch)
    then show ?thesis using s g park(2) emp [OF park(1)] by (auto simp: chan_ok_def ch)
  next
    case shut
    then show ?thesis using ok emp recv_closed_empty [of w c tls] by auto
  next
    case deq
    let ?C1 = "?C\<lparr>head := (head ?C + 1) mod capacity ?C, count := count ?C - 1\<rparr>"
    let ?w1 = "w\<lparr>next_alloc := Suc (next_alloc w), channels := (channels w)(c := ?C1)\<rparr>"
    have s: "runtime_channel_recv w tls (Some c) = Returned (Some (buffer ?C ! unat (head ?C))) ?w1"
      using recv_deq_nowake [OF deq(1) chan_wf_tail_less(4) [OF wf] chan_wf_tail_less(5) [OF wf] deq(2)] .
    have "chan_wf ?C1" "chan_contents ?C = buffer ?C ! unat (head ?C) # chan_contents ?C1"
      using deq_step [OF wf deq(1), of ?C1] by simp_all
    then show ?thesis using s ok deq by (auto simp: chan_ok_def)
  next
    case (wake r)
    have g: "g_scheduler w \<noteq> None" using ok wake(2) by (auto simp: chan_ok_def)
    let ?C1 = "?C\<lparr>head := (head ?C + 1) mod capacity ?C, count := count ?C - 1,
                   blocked_senders := next (legions w r)\<rparr>"
    from recv_deq_wake [OF wake(1) chan_wf_tail_less(4) [OF wf] chan_wf_tail_less(5) [OF wf] wake(2) g, of tls]
    obtain w' where
      s: "runtime_channel_recv w tls (Some c) = Returned (Some (buffer ?C ! unat (head ?C))) w'"
      and ch: "channels w' = (channels w)(c := ?C1)" and g': "g_scheduler w' \<noteq> None"
      by blast
    have "chan_wf ?C1" "chan_contents ?C = buffer ?C ! unat (head ?C) # chan_contents ?C1"
      using deq_step [OF wf wake(1), of ?C1] by simp_all
    then show ?thesis using s g' by (auto simp: chan_ok_def ch)
  qed
qed

lemma try_send_effect:
  assumes ok: "chan_ok w c"
  shows "\<exists>w' r. runtime_channel_try_send w (Some c) v = Returned r w'
            \<and> (r = 0 \<and> w' = w
                \<or> r = 1 \<and> closed (channels w c) = 0
                  \<and> chan_contents (channels w' c) = chan_contents (channels w c) @ [v])
            \<and> chan_ok w' c
            \<and> closed (channels w' c) = closed (channels w c)
            \<and> capacity (channels w' c) = capacity (channels w c)"
proof -
  let ?C = "channels w c"
  have wf: "chan_wf ?C" using ok by (simp add: chan_ok_def)
  consider (shut) "closed ?C \<noteq> 0" | (full) "closed ?C = 0" "capacity ?C \<le> count ?C"
    | (enq) "closed ?C = 0" "count ?C < capacity ?C"
    by (metis not_le)
  then show ?thesis
  proof cases
    case shut
    then show ?thesis using ok by (simp add: runtime_channel_try_send_def)
  next
    case full
    then show ?thesis using ok by (simp add: runtime_channel_try_send_def)
  next
    case enq
    let ?C1 = "?C\<lparr>buffer := (buffer ?C)[unat (tail ?C) := v],
                   tail := (tail ?C + 1) mod capacity ?C, count := count ?C + 1\<rparr>"
    have s: "runtime_channel_try_send w (Some c) v
               = Returned 1 (w\<lparr>channels := (channels w)(c := ?C1)\<rparr>)"
      using enq chan_wf_tail_less(6) [OF wf]
      by (simp add: runtime_channel_try_send_def Let_def not_le [symmetric])
    have "chan_wf ?C1" "chan_contents ?C1 = chan_contents ?C @ [v]"
      using enq_step [OF wf enq(2), of ?C1 v] by simp_all
    then show ?thesis using s ok enq by (auto simp: chan_ok_def)
  qed
qed

lemma try_recv_effect:
  assumes ok: "chan_ok w c"
  shows "\<exists>w' r. runtime_channel_try_recv w (Some c) value_null = Returned r w'
            \<and> (fst r = 0 \<and> w' = w
                \<or> (\<exists>x. r = (1, Some (Some x))
                     \<and> chan_contents (channels w c) = x # chan_contents (channels w' c)))
            \<and> chan_ok w' c
            \<and> closed (channels w' c) = closed (channels w c)
            \<and> capacity (channels w' c) = capacity (channels w c)"
proof -
  let ?C = "channels w c"
  have wf: "chan_wf ?C" using ok by (simp add: chan_ok_def)
  consider (null) "value_null" | (emp) "\<not> value_null" "count ?C = 0"
    | (deq) "\<not> value_null" "count ?C \<noteq> 0"
    by blast
  then show ?thesis
  proof cases
    case null
    then show ?thesis using ok by (simp add: runtime_channel_try_recv_def)
  next
    case emp
    then show ?thesis using ok by (auto simp: runtime_channel_try_recv_def Let_def)
  next
    case deq
    let ?C1 = "?C\<lparr>head := (head ?C + 1) mod capacity ?C, count := count ?C - 1\<rparr>"
    have s: "runtime_channel_try_recv w (Some c) value_null
               = Returned (1, Some (Some (buffer ?C ! unat (head ?C))))
                   (w\<lparr>next_alloc := Suc (next_alloc w), channels := (channels w)(c := ?C1)\<rparr>)"
      using deq chan_wf_tail_less(4,5) [OF wf]
      by (simp add: runtime_channel_try_recv_def runtime_alloc_def Let_def not_le [symmetric])
    have "chan_wf ?C1" "chan_contents ?C = buffer ?C ! unat (head ?C) # chan_contents ?C1"
      using deq_step [OF wf deq(2), of ?C1] by simp_all
    then show ?thesis using s ok by (auto simp: chan_ok_def)
  qed
qed

lemma close_effect:
  assumes ok: "chan_ok w c"
  shows "chan_ok (runtime_channel_close w (Some c)) c"
    and "closed (channels (runtime_channel_close w (Some c)) c) = 1"
    and "capacity (channels (runtime_channel_close w (Some c)) c) = capacity (channels w c)"
    and "chan_contents (channels (runtime_channel_close w (Some c)) c) = chan_contents (channels w c)"
  using ok by (simp_all add: runtime_channel_close_def chan_ok_def chan_wf_def chan_contents_def)

lemma buffer_cells_exact:
  assumes "unat elem_size' * unat capacity' < 2 ^ 64"
  shows "buffer_cells elem_size' capacity' = unat capacity'"
proof (cases "elem_size' = 0")
  case True
  then show ?thesis by (simp add: buffer_cells_def)
next
  case False
  have "unat (elem_size' * capacity') = unat elem_size' * unat capacity'"
    using assms unat_mult_lem [of elem_size' capacity'] by simp
  moreover have "0 < unat elem_size'" using False by (simp add: unat_gt_0)
  ultimately show ?thesis using False by (simp add: buffer_cells_def)
qed

lemma channel_new_ok:
  assumes "capacity' \<noteq> 0" and "unat elem_size' * unat capacity' < 2 ^ 64"
  shows "chan_ok (snd (runtime_channel_new w elem_size' capacity')) (fst (runtime_channel_new w elem_size' capacity'))"
    and "closed (channels (snd (runtime_channel_new w elem_size' capacity'))
           (fst (runtime_channel_new w elem_size' capacity'))) = 0"
    and "capacity (channels (snd (runtime_channel_new w elem_size' capacity'))
           (fst (runtime_channel_new w elem_size' capacity'))) = capacity'"
    and "chan_contents (channels (snd (runtime_channel_new w elem_size' capacity'))
           (fst (runtime_channel_new w elem_size' capacity'))) = []"
  using assms(1) buffer_cells_exact [OF assms(2)]
  by (simp_all add: runtime_channel_new_def runtime_alloc_def chan_ok_def chan_wf_def
      chan_contents_def unat_gt_0)

text \<open>
  When the product wraps the buffer is too short: with \<open>elem_size = 2 ^ 63\<close> and
  \<open>capacity = 2\<close> it has no cell, and the first try_send leaves defined behaviour.
\<close>

lemma channel_new_wrapped:
  "buffer_cells 9223372036854775808 2 = 0
   \<and> runtime_channel_try_send (snd (runtime_channel_new world0 9223372036854775808 2)) (Some 1) 7
       = Fault"
  by (simp add: buffer_cells_def runtime_channel_new_def runtime_alloc_def world0_def
      runtime_channel_try_send_def Let_def)

lemma apply_op_ok:
  assumes ok: "chan_ok w c"
  shows "\<exists>w'. apply_op w c op = Some w' \<and> chan_ok w' c
           \<and> capacity (channels w' c) = capacity (channels w c)
           \<and> (closed (channels w c) \<noteq> 0 \<longrightarrow> closed (channels w' c) \<noteq> 0)"
proof (cases op)
  case (Op_send tls v)
  then show ?thesis using send_effect [OF ok, of tls v] by auto
next
  case (Op_recv tls)
  then show ?thesis using recv_effect [OF ok, of tls] by auto
next
  case (Op_try_send v)
  then show ?thesis using try_send_effect [OF ok, of v] by auto
next
  case (Op_try_recv b)
  then show ?thesis using try_recv_effect [OF ok, of b] by auto
next
  case Op_close
  then show ?thesis using close_effect [OF ok] by simp
qed

lemma run_ops_ok:
  assumes "chan_ok w c"
  shows "\<exists>w'. run_ops w c ops = Some w' \<and> chan_ok w' c
           \<and> capacity (channels w' c) = capacity (channels w c)
           \<and> (closed (channels w c) \<noteq> 0 \<longrightarrow> closed (channels w' c) \<noteq> 0)"
  using assms
proof (induction ops arbitrary: w)
  case Nil
  then show ?case by simp
next
  case (Cons op ops)
  from apply_op_ok [OF Cons.prems, of op] obtain w1 where
    a: "apply_op w c op = Some w1" and ok1: "chan_ok w1 c"
    and cap1: "capacity (channels w1 c) = capacity (channels w c)"
    and cl1: "closed (channels w c) \<noteq> 0 \<longrightarrow> closed (channels w1 c) \<noteq> 0"
    by blast
  from Cons.IH [OF ok1] obtain w' where
    "run_ops w1 c ops = Some w'" "chan_ok w' c"
    "capacity (channels w' c) = capacity (channels w1 c)"
    "closed (channels w1 c) \<noteq> 0 \<longrightarrow> closed (channels w' c) \<noteq> 0"
    by blast
  then show ?case using a cap1 cl1 by simp
qed

lemma apply_op_null:
  assumes cap: "capacity (channels w c) = 0" and cnt: "count (channels w c) = 0"
  shows "\<exists>w'. apply_op w c op = Some w'
           \<and> capacity (channels w' c) = 0 \<and> count (channels w' c) = 0"
proof (cases op)
  case (Op_send tls v)
  have full: "capacity (channels w c) \<le> count (channels w c)" using cap cnt by simp
  show ?thesis
  proof (cases "closed (channels w c) = 0")
    case True
    show ?thesis
    proof (cases "runtime_get_current_legion w tls")
      case None
      then show ?thesis using Op_send cap cnt send_wait [OF full True, of tls v] by simp
    next
      case (Some l)
      from send_park [OF full True Some, of v] show ?thesis using Op_send cap cnt by auto
    qed
  next
    case False
    then show ?thesis using Op_send cap cnt send_shut [of w c tls v] by simp
  qed
next
  case (Op_recv tls)
  show ?thesis
  proof (cases "closed (channels w c) = 0")
    case True
    show ?thesis
    proof (cases "runtime_get_current_legion w tls")
      case None
      then show ?thesis using Op_recv cap cnt recv_wait [OF cnt True, of tls] by simp
    next
      case (Some l)
      from recv_park [OF cnt True Some] show ?thesis using Op_recv cap cnt by auto
    qed
  next
    case False
    then show ?thesis using Op_recv cap cnt recv_closed_empty [OF cnt, of tls] by simp
  qed
next
  case (Op_try_send v)
  then show ?thesis using cap cnt by (simp add: runtime_channel_try_send_def Let_def)
next
  case (Op_try_recv b)
  then show ?thesis using cap cnt by (simp add: runtime_channel_try_recv_def Let_def)
next
  case Op_close
  then show ?thesis using cap cnt by (simp add: runtime_channel_close_def)
qed

lemma run_ops_null:
  assumes "capacity (channels w c) = 0" and "count (channels w c) = 0"
  shows "\<exists>w'. run_ops w c ops = Some w'
           \<and> capacity (channels w' c) = 0 \<and> count (channels w' c) = 0"
  using assms
proof (induction ops arbitrary: w)
  case Nil
  then show ?case by simp
next
  case (Cons op ops)
  from apply_op_null [OF Cons.prems, of op] obtain w1 where
    a: "apply_op w c op = Some w1"
    and c1: "capacity (channels w1 c) = 0" "count (channels w1 c) = 0"
    by blast
  from Cons.IH [OF c1] show ?case using a by simp
qed

lemma channel_new_fields:
  "capacity (channels (snd (runtime_channel_new w elem_size' capacity'))
           (fst (runtime_channel_new w elem_size' capacity'))) = capacity'"
  "count (channels (snd (runtime_channel_new w elem_size' capacity'))
           (fst (runtime_channel_new w elem_size' capacity'))) = 0"
  by (simp_all add: runtime_channel_new_def runtime_alloc_def)

lemma chan_contents_empty_iff: "chan_contents C = [] \<longleftrightarrow> count C = 0"
  by (simp add: chan_contents_def unat_eq_0)

lemma spsc_run_inv:
  assumes "chan_ok w c" and "closed (channels w c) = 0"
  shows "\<exists>w' pending' m' got'.
           spsc_run w c sch pending m got = Some (w', pending', m', got')
           \<and> chan_ok w' c \<and> closed (channels w' c) = 0
           \<and> got' @ map Some (chan_contents (channels w' c)) @ map Some pending'
               = got @ map Some (chan_contents (channels w c)) @ map Some pending
           \<and> length got' + m' = length got + m"
  using assms
proof (induction w c sch pending m got rule: spsc_run.induct)
  case (1 w c pending m got)
  then show ?case by simp
next
  case (2 w c tls sch m got)
  then show ?case by simp
next
  case (3 w c tls sch v vs m got)
  from send_effect [OF "3.prems"(1), of tls v] obtain w1 where
    eff: "runtime_channel_send w tls (Some c) v = Returned () w1
            \<and> chan_contents (channels w1 c) = chan_contents (channels w c) @ [v]
          \<or> (runtime_channel_send w tls (Some c) v = Parked w1
              \<or> runtime_channel_send w tls (Some c) v = Waiting w1)
            \<and> chan_contents (channels w1 c) = chan_contents (channels w c)"
    and ok1: "chan_ok w1 c" and cl1: "closed (channels w1 c) = 0"
    using "3.prems"(2) by auto
  from eff consider
    (ret) "runtime_channel_send w tls (Some c) v = Returned () w1"
      "chan_contents (channels w1 c) = chan_contents (channels w c) @ [v]"
    | (park) "runtime_channel_send w tls (Some c) v = Parked w1"
      "chan_contents (channels w1 c) = chan_contents (channels w c)"
    | (wait) "runtime_channel_send w tls (Some c) v = Waiting w1"
      "chan_contents (channels w1 c) = chan_contents (channels w c)"
    by blast
  then show ?case
  proof cases
    case ret
    from "3.IH"(1) [OF ret(1) ok1 cl1] show ?thesis using ret by simp
  next
    case park
    from "3.IH"(2) [OF park(1) ok1 cl1] show ?thesis using park by simp
  next
    case wait
    from "3.IH"(3) [OF wait(1) ok1 cl1] show ?thesis using wait by simp
  qed
next
  case (4 w c tls sch pending got)
  then show ?case by simp
next
  case (5 w c tls sch pending m got)
  from recv_effect [OF "5.prems"(1), of tls] obtain w1 where
    eff: "(\<exists>r. runtime_channel_recv w tls (Some c) = Returned (Some r) w1
               \<and> chan_contents (channels w c) = r # chan_contents (channels w1 c))
          \<or> (runtime_channel_recv w tls (Some c) = Parked w1
              \<or> runtime_channel_recv w tls (Some c) = Waiting w1)
            \<and> chan_contents (channels w1 c) = chan_contents (channels w c)"
    and ok1: "chan_ok w1 c" and cl1: "closed (channels w1 c) = 0"
    using "5.prems"(2) by auto
  from eff consider
    (ret) r where "runtime_channel_recv w tls (Some c) = Returned (Some r) w1"
      "chan_contents (channels w c) = r # chan_contents (channels w1 c)"
    | (park) "runtime_channel_recv w tls (Some c) = Parked w1"
      "chan_contents (channels w1 c) = chan_contents (channels w c)"
    | (wait) "runtime_channel_recv w tls (Some c) = Waiting w1"
      "chan_contents (channels w1 c) = chan_contents (channels w c)"
    by blast
  then show ?case
  proof cases
    case ret
    from "5.IH"(1) [OF ret(1) ok1 cl1] show ?thesis using ret by simp
  next
    case park
    from "5.IH"(2) [OF park(1) ok1 cl1] show ?thesis using park by simp
  next
    case wait
    from "5.IH"(3) [OF wait(1) ok1 cl1] show ?thesis using wait by simp
  qed
qed

lemma spsc_alternate:
  assumes "chan_ok w c" and "closed (channels w c) = 0" and "capacity (channels w c) \<noteq> 0"
    and "chan_contents (channels w c) = []"
  shows "\<exists>w'. spsc_run w c (concat (map (\<lambda>v. [(True, 0), (False, 0)]) vs)) vs (length vs) got
                = Some (w', [], 0, got @ map Some vs)"
  using assms
proof (induction vs arbitrary: w got)
  case Nil
  then show ?case by simp
next
  case (Cons v vs)
  have c0: "count (channels w c) = 0"
    using Cons.prems(4) by (simp add: chan_contents_empty_iff)
  have notfull: "\<not> capacity (channels w c) \<le> count (channels w c)"
    using c0 Cons.prems(3) by (simp add: word_le_nat_alt unat_eq_0)
  from send_effect [OF Cons.prems(1), of 0 v] obtain w1 where
    s: "runtime_channel_send w 0 (Some c) v = Returned () w1"
    and c1: "chan_contents (channels w1 c) = [v]"
    and ok1: "chan_ok w1 c" and cl1: "closed (channels w1 c) = 0"
    and cap1: "capacity (channels w1 c) \<noteq> 0"
    using Cons.prems(2,3,4) notfull by auto
  from recv_effect [OF ok1, of 0] obtain w2 where
    r: "runtime_channel_recv w1 0 (Some c) = Returned (Some v) w2"
    and c2: "chan_contents (channels w2 c) = []"
    and ok2: "chan_ok w2 c" and cl2: "closed (channels w2 c) = 0"
    and cap2: "capacity (channels w2 c) \<noteq> 0"
    using c1 cl1 cap1 by auto
  from Cons.IH [OF ok2 cl2 cap2 c2, of "got @ [Some v]"] show ?case
    using s r by simp
qed

lemma recv_seq_drain:
  assumes "chan_ok w c" and "closed (channels w c) \<noteq> 0"
    and "length ts = length (chan_contents (channels w c)) + m"
  shows "\<exists>w'. recv_seq w c ts
                = Some (map Some (chan_contents (channels w c)) @ replicate m None, w')
              \<and> closed (channels w' c) \<noteq> 0 \<and> chan_contents (channels w' c) = []"
  using assms
proof (induction ts arbitrary: w m)
  case Nil
  then show ?case by simp
next
  case (Cons tls ts)
  from recv_effect [OF Cons.prems(1), of tls] obtain w1 where
    eff: "(\<exists>r. runtime_channel_recv w tls (Some c) = Returned (Some r) w1
               \<and> chan_contents (channels w c) = r # chan_contents (channels w1 c))
          \<or> runtime_channel_recv w tls (Some c) = Returned None w1
            \<and> chan_contents (channels w c) = [] \<and> w1 = w"
    and ok1: "chan_ok w1 c" and cl1: "closed (channels w1 c) \<noteq> 0"
    using Cons.prems(2) by auto
  from eff consider
    (some) r where "runtime_channel_recv w tls (Some c) = Returned (Some r) w1"
      "chan_contents (channels w c) = r # chan_contents (channels w1 c)"
    | (none) "runtime_channel_recv w tls (Some c) = Returned None w1"
      "chan_contents (channels w c) = []" "w1 = w"
    by blast
  then show ?case
  proof cases
    case some
    have "length ts = length (chan_contents (channels w1 c)) + m"
      using Cons.prems(3) some(2) by simp
    from Cons.IH [OF ok1 cl1 this] show ?thesis using some by auto
  next
    case none
    then obtain m' where m: "m = Suc m'" and "length ts = length (chan_contents (channels w1 c)) + m'"
      using Cons.prems(3) by (cases m) simp_all
    from Cons.IH [OF ok1 cl1 this(2)] show ?thesis using none m by auto
  qed
qed

section \<open>Park lists and run queues\<close>

lemma park_list_cong:
  assumes "\<And>x. x \<in> set xs \<Longrightarrow> next (h' x) = next (h x)"
  shows "park_list h' p xs = park_list h p xs"
  using assms by (induction xs arbitrary: p) simp_all

lemma send_parks_at_head:
  assumes full: "capacity (channels w c) \<le> count (channels w c)"
    and op: "closed (channels w c) = 0"
    and cur: "runtime_get_current_legion w tls = Some l"
    and pl: "park_list (legions w) (blocked_senders (channels w c)) xs"
    and fresh: "l \<notin> set xs"
  shows "\<exists>w'. runtime_channel_send w tls (Some c) v = Parked w'
           \<and> park_list (legions w') (blocked_senders (channels w' c)) (l # xs)
           \<and> state (legions w' l) = LEGION_STATE_BLOCKED
           \<and> blocked_on (legions w' l) = Some c"
proof -
  from send_park [OF full op cur, of v] obtain w' where
    s: "runtime_channel_send w tls (Some c) v = Parked w'"
    and ch: "channels w' = (channels w)(c := (channels w c)\<lparr>blocked_senders := Some l\<rparr>)"
    and nx: "next (legions w' l) = blocked_senders (channels w c)"
    and oth: "\<forall>p. p \<noteq> l \<longrightarrow> legions w' p = legions w p"
    and st: "state (legions w' l) = LEGION_STATE_BLOCKED" "blocked_on (legions w' l) = Some c"
    by blast
  have "park_list (legions w') (blocked_senders (channels w c)) xs
          = park_list (legions w) (blocked_senders (channels w c)) xs"
    using oth fresh by (intro park_list_cong) auto
  then have "park_list (legions w') (blocked_senders (channels w' c)) (l # xs)"
    using pl nx by (simp add: ch)
  then show ?thesis using s st by blast
qed

lemma recv_parks_at_head:
  assumes emp: "count (channels w c) = 0"
    and op: "closed (channels w c) = 0"
    and cur: "runtime_get_current_legion w tls = Some l"
    and pl: "park_list (legions w) (blocked_receivers (channels w c)) xs"
    and fresh: "l \<notin> set xs"
  shows "\<exists>w'. runtime_channel_recv w tls (Some c) = Parked w'
           \<and> park_list (legions w') (blocked_receivers (channels w' c)) (l # xs)
           \<and> state (legions w' l) = LEGION_STATE_BLOCKED
           \<and> blocked_on (legions w' l) = Some c"
proof -
  from recv_park [OF emp op cur] obtain w' where
    s: "runtime_channel_recv w tls (Some c) = Parked w'"
    and ch: "channels w' = (channels w)(c := (channels w c)\<lparr>blocked_receivers := Some l\<rparr>)"
    and nx: "next (legions w' l) = blocked_receivers (channels w c)"
    and oth: "\<forall>p. p \<noteq> l \<longrightarrow> legions w' p = legions w p"
    and st: "state (legions w' l) = LEGION_STATE_BLOCKED" "blocked_on (legions w' l) = Some c"
    by blast
  have "park_list (legions w') (blocked_receivers (channels w c)) xs
          = park_list (legions w) (blocked_receivers (channels w c)) xs"
    using oth fresh by (intro park_list_cong) auto
  then have "park_list (legions w') (blocked_receivers (channels w' c)) (l # xs)"
    using pl nx by (simp add: ch)
  then show ?thesis using s st by blast
qed

lemma recv_wakes_head:
  assumes ok: "chan_ok w c" and nz: "count (channels w c) \<noteq> 0"
    and pl: "park_list (legions w) (blocked_senders (channels w c)) (l # xs)"
    and fresh: "l \<notin> set xs"
    and st: "state (legions w l) = LEGION_STATE_BLOCKED"
  shows "\<exists>w' r. runtime_channel_recv w tls (Some c) = Returned (Some r) w'
           \<and> park_list (legions w') (blocked_senders (channels w' c)) xs
           \<and> state (legions w' l) = LEGION_STATE_RUNNABLE
           \<and> next (legions w' l) = None \<and> blocked_on (legions w' l) = None"
proof -
  have wf: "chan_wf (channels w c)" using ok by (simp add: chan_ok_def)
  have hd: "blocked_senders (channels w c) = Some l"
    and rest: "park_list (legions w) (next (legions w l)) xs"
    using pl by simp_all
  have g: "g_scheduler w \<noteq> None" using ok hd by (auto simp: chan_ok_def)
  from recv_deq_wake [OF nz chan_wf_tail_less(4) [OF wf] chan_wf_tail_less(5) [OF wf] hd g, of tls]
  obtain w' where
    s: "runtime_channel_recv w tls (Some c)
          = Returned (Some (buffer (channels w c) ! unat (head (channels w c)))) w'"
    and ch: "blocked_senders (channels w' c) = next (legions w l)"
    and lg: "legions w' = (legions w)(l := (legions w l)\<lparr>next := None,
               state := LEGION_STATE_RUNNABLE, blocked_on := None\<rparr>)"
    using st by auto
  have "park_list (legions w') (next (legions w l)) xs
          = park_list (legions w) (next (legions w l)) xs"
    using fresh by (intro park_list_cong) (auto simp: lg)
  then have "park_list (legions w') (blocked_senders (channels w' c)) xs"
    using rest ch by simp
  then show ?thesis using s by (auto simp: lg)
qed

lemma send_wakes_head:
  assumes ok: "chan_ok w c" and lt: "count (channels w c) < capacity (channels w c)"
    and op: "closed (channels w c) = 0"
    and pl: "park_list (legions w) (blocked_receivers (channels w c)) (l # xs)"
    and fresh: "l \<notin> set xs"
    and st: "state (legions w l) = LEGION_STATE_BLOCKED"
  shows "\<exists>w'. runtime_channel_send w tls (Some c) v = Returned () w'
           \<and> park_list (legions w') (blocked_receivers (channels w' c)) xs
           \<and> state (legions w' l) = LEGION_STATE_RUNNABLE
           \<and> next (legions w' l) = None \<and> blocked_on (legions w' l) = None"
proof -
  have wf: "chan_wf (channels w c)" using ok by (simp add: chan_ok_def)
  have hd: "blocked_receivers (channels w c) = Some l"
    and rest: "park_list (legions w) (next (legions w l)) xs"
    using pl by simp_all
  have g: "g_scheduler w \<noteq> None" using ok hd by (auto simp: chan_ok_def)
  from send_enq_wake [OF op lt chan_wf_tail_less(6) [OF wf] hd g, of tls v]
  obtain w' where
    s: "runtime_channel_send w tls (Some c) v = Returned () w'"
    and ch: "blocked_receivers (channels w' c) = next (legions w l)"
    and lg: "legions w' = (legions w)(l := (legions w l)\<lparr>next := None,
               state := LEGION_STATE_RUNNABLE, blocked_on := None\<rparr>)"
    using st by auto
  have "park_list (legions w') (next (legions w l)) xs
          = park_list (legions w) (next (legions w l)) xs"
    using fresh by (intro park_list_cong) (auto simp: lg)
  then have "park_list (legions w') (blocked_receivers (channels w' c)) xs"
    using rest ch by simp
  then show ?thesis using s by (auto simp: lg)
qed

lemma upt_workers: "[Suc 0..<MAX_OS_THREADS] = [Suc 0, 2, 3]"
  by (simp add: MAX_OS_THREADS_def upt_rec)

lemma find_least_loaded_full: "find_least_loaded_thread (sched_full\<lparr>active_legions := n\<rparr>) = 0"
  by (simp add: find_least_loaded_thread_def upt_workers get_queue_length_def sched_full_def)

text \<open>
  What \<open>runtime_legion_start\<close> does in general: with every ring full it only counts
  the legion; when the ring it chooses has room the legion is in that ring afterwards.
\<close>

lemma upt_workers1: "[1..<MAX_OS_THREADS] = [1, 2, 3]"
  by (simp add: MAX_OS_THREADS_def upt_rec)

lemma find_least_loaded_bound: "find_least_loaded_thread s < MAX_OS_THREADS"
  unfolding find_least_loaded_thread_def upt_workers1
  by (simp add: MAX_OS_THREADS_def Let_def)

lemma start_all_full:
  assumes g: "g_scheduler w = Some s"
    and full: "\<And>i. i < MAX_OS_THREADS \<Longrightarrow> (queue_tail s i + 1) mod LEGION_QUEUE_SIZE = queue_head s i"
  shows "runtime_legion_start w (Some l)
           = w\<lparr>g_scheduler := Some (s\<lparr>active_legions := active_legions s + 1\<rparr>)\<rparr>"
proof -
  let ?s = "s\<lparr>active_legions := active_legions s + 1\<rparr>"
  have "(queue_tail ?s (find_least_loaded_thread ?s) + 1) mod LEGION_QUEUE_SIZE
          = queue_head ?s (find_least_loaded_thread ?s)"
    using full [OF find_least_loaded_bound [of ?s]]
    by (simp add: find_least_loaded_thread_def get_queue_length_def)
  then show ?thesis
    using g by (simp add: runtime_legion_start_def push_to_local_queue_def Let_def)
qed

lemma queue_contents_tail:
  assumes h: "queue_head s i < LEGION_QUEUE_SIZE" and t: "queue_tail s i < LEGION_QUEUE_SIZE"
    and room: "(queue_tail s i + 1) mod LEGION_QUEUE_SIZE \<noteq> queue_head s i"
  shows "x \<in> set (queue_contents
           (s\<lparr>run_queue := (run_queue s)(i := (run_queue s i)(queue_tail s i := x)),
              queue_tail := (queue_tail s)(i := (queue_tail s i + 1) mod LEGION_QUEUE_SIZE)\<rparr>) i)"
proof -
  let ?h = "queue_head s i" and ?t = "queue_tail s i"
  let ?s' = "s\<lparr>run_queue := (run_queue s)(i := (run_queue s i)(?t := x)),
              queue_tail := (queue_tail s)(i := (?t + 1) mod LEGION_QUEUE_SIZE)\<rparr>"
  let ?k = "get_queue_length s i"
  have k: "(?h + ?k) mod LEGION_QUEUE_SIZE = ?t"
    using h t unfolding get_queue_length_def LEGION_QUEUE_SIZE_def Let_def
    by (auto simp: mod_if)
  have len: "get_queue_length ?s' i = Suc ?k"
    using h t room unfolding get_queue_length_def LEGION_QUEUE_SIZE_def Let_def
    by (auto simp: mod_if split: if_splits)
  have "run_queue ?s' i ((queue_head ?s' i + ?k) mod LEGION_QUEUE_SIZE) = x"
    using k by simp
  moreover have "?k \<in> set [0..<get_queue_length ?s' i]" using len by simp
  ultimately show ?thesis
    unfolding queue_contents_def by (metis (no_types, lifting) image_eqI list.set_map)
qed

lemma start_room:
  assumes g: "g_scheduler w = Some s"
    and i: "i = find_least_loaded_thread (s\<lparr>active_legions := active_legions s + 1\<rparr>)"
    and h: "queue_head s i < LEGION_QUEUE_SIZE" and t: "queue_tail s i < LEGION_QUEUE_SIZE"
    and room: "(queue_tail s i + 1) mod LEGION_QUEUE_SIZE \<noteq> queue_head s i"
  shows "legion_queued (runtime_legion_start w (Some l)) l"
proof -
  let ?s = "s\<lparr>active_legions := active_legions s + 1\<rparr>"
  let ?s' = "?s\<lparr>run_queue := (run_queue ?s)(i := (run_queue ?s i)(queue_tail ?s i := Some l)),
               queue_tail := (queue_tail ?s)(i := (queue_tail ?s i + 1) mod LEGION_QUEUE_SIZE)\<rparr>"
  have st: "runtime_legion_start w (Some l) = w\<lparr>g_scheduler := Some ?s'\<rparr>"
    using g room i by (simp add: runtime_legion_start_def push_to_local_queue_def Let_def)
  have "Some l \<in> set (queue_contents ?s' i)"
    using queue_contents_tail [of ?s i "Some l"] h t room by simp
  moreover have "i \<in> set [0..<MAX_OS_THREADS]"
    using find_least_loaded_bound [of ?s] i by simp
  ultimately show ?thesis
    unfolding legion_queued_def st by (auto simp: list_ex_iff)
qed

lemma start_after_init:
  "legion_queued (runtime_legion_start (runtime_scheduler_init world0) (Some 7)) 7"
proof -
  have g: "g_scheduler (runtime_scheduler_init world0)
      = Some \<lparr>num_threads = MAX_OS_THREADS, run_queue = (\<lambda>i k. None),
                    queue_head = (\<lambda>i. 0), queue_tail = (\<lambda>i. 0), active_legions = 0,
                    shutdown = 0, current_legion = (\<lambda>i. None)\<rparr>"
    by (simp add: runtime_scheduler_init_def runtime_alloc_def world0_def)
  show ?thesis
    by (rule start_room [OF g refl]) (simp_all add: LEGION_QUEUE_SIZE_def)
qed

text \<open>Run alone, the steps of each side are the source function.\<close>

lemma pop_steps_sequential:
  "pop_steal_race s i [True, True, True, True] Pop_load_head q =
     (snd (pop_from_local_queue s i), Pop_done (fst (pop_from_local_queue s i)), q)"
  by (simp add: pop_from_local_queue_def Let_def)

lemma steal_steps_sequential:
  "pop_steal_race s i [False, False, False, False] p Steal_load_head =
     (snd (steal_from_queue s i), p, Steal_done (fst (steal_from_queue s i)))"
  by (simp add: steal_from_queue_def Let_def)

lemma running_ok:
  "chan_ok (snd (runtime_channel_new world_running 8 1)) 1"
proof -
  have "fst (runtime_channel_new world_running 8 1) = 1"
    by (simp add: runtime_channel_new_def runtime_alloc_def world_running_def world0_def)
  then show ?thesis using channel_new_ok(1) [of 1 8 world_running] by simp
qed

lemma ok_two: "chan_ok world_two_parked 1"
  using run_ops_ok [OF running_ok, of "[Op_try_send 7, Op_send 1 8, Op_send 2 9]"]
  by (auto simp: world_two_parked_def world_after_def simp del: run_ops.simps)

lemma ok_recv: "chan_ok world_recv_parked 1"
  using run_ops_ok [OF running_ok, of "[Op_recv 1]"]
  by (auto simp: world_recv_parked_def world_after_def simp del: run_ops.simps)

text \<open>
  For a caller that \<open>runtime_get_current_legion\<close> identifies as a legion the park lists
  are stacks: parking on a list \<open>xs\<close> leaves \<open>l # xs\<close>, and the counterpart detaches
  the head of \<open>l # xs\<close>, clears its \<open>next\<close>, makes it RUNNABLE and leaves \<open>xs\<close>.
\<close>

lemma park_lists_lifo:
  "(capacity (channels w c) \<le> count (channels w c) \<and> closed (channels w c) = 0
      \<and> runtime_get_current_legion w tls = Some l
      \<and> park_list (legions w) (blocked_senders (channels w c)) xs \<and> l \<notin> set xs
    \<longrightarrow> (\<exists>w'. runtime_channel_send w tls (Some c) v = Parked w'
           \<and> park_list (legions w') (blocked_senders (channels w' c)) (l # xs)
           \<and> state (legions w' l) = LEGION_STATE_BLOCKED
           \<and> blocked_on (legions w' l) = Some c))
   \<and> (chan_ok w c \<and> count (channels w c) \<noteq> 0
      \<and> park_list (legions w) (blocked_senders (channels w c)) (l # xs) \<and> l \<notin> set xs
      \<and> state (legions w l) = LEGION_STATE_BLOCKED
    \<longrightarrow> (\<exists>w' r. runtime_channel_recv w tls (Some c) = Returned (Some r) w'
           \<and> park_list (legions w') (blocked_senders (channels w' c)) xs
           \<and> state (legions w' l) = LEGION_STATE_RUNNABLE
           \<and> next (legions w' l) = None \<and> blocked_on (legions w' l) = None))
   \<and> (count (channels w c) = 0 \<and> closed (channels w c) = 0
      \<and> runtime_get_current_legion w tls = Some l
      \<and> park_list (legions w) (blocked_receivers (channels w c)) xs \<and> l \<notin> set xs
    \<longrightarrow> (\<exists>w'. runtime_channel_recv w tls (Some c) = Parked w'
           \<and> park_list (legions w') (blocked_receivers (channels w' c)) (l # xs)
           \<and> state (legions w' l) = LEGION_STATE_BLOCKED
           \<and> blocked_on (legions w' l) = Some c))
   \<and> (chan_ok w c \<and> count (channels w c) < capacity (channels w c)
      \<and> closed (channels w c) = 0
      \<and> park_list (legions w) (blocked_receivers (channels w c)) (l # xs) \<and> l \<notin> set xs
      \<and> state (legions w l) = LEGION_STATE_BLOCKED
    \<longrightarrow> (\<exists>w'. runtime_channel_send w tls (Some c) v = Returned () w'
           \<and> park_list (legions w') (blocked_receivers (channels w' c)) xs
           \<and> state (legions w' l) = LEGION_STATE_RUNNABLE
           \<and> next (legions w' l) = None \<and> blocked_on (legions w' l) = None))"
  using send_parks_at_head [of w c tls l xs v] recv_wakes_head [of w c l xs tls]
    recv_parks_at_head [of w c tls l xs] send_wakes_head [of w c l xs tls v]
  by blast

lemma park_lists_lifo_example:
  "(\<exists>w'. runtime_channel_send world_one_parked 2 (Some 1) 9 = Parked w'
           \<and> park_list (legions w') (blocked_senders (channels w' 1)) [12, 11]
           \<and> state (legions w' 12) = LEGION_STATE_BLOCKED
           \<and> blocked_on (legions w' 12) = Some 1)
   \<and> (\<exists>w' r. runtime_channel_recv world_two_parked 0 (Some 1) = Returned (Some r) w'
           \<and> park_list (legions w') (blocked_senders (channels w' 1)) [11]
           \<and> state (legions w' 12) = LEGION_STATE_RUNNABLE
           \<and> next (legions w' 12) = None \<and> blocked_on (legions w' 12) = None)
   \<and> (\<exists>w'. runtime_channel_recv (snd (runtime_channel_new world_running 8 1)) 1 (Some 1) = Parked w'
           \<and> park_list (legions w') (blocked_receivers (channels w' 1)) [11]
           \<and> state (legions w' 11) = LEGION_STATE_BLOCKED
           \<and> blocked_on (legions w' 11) = Some 1)
   \<and> (\<exists>w'. runtime_channel_send world_recv_parked 0 (Some 1) 7 = Returned () w'
           \<and> park_list (legions w') (blocked_receivers (channels w' 1)) []
           \<and> state (legions w' 11) = LEGION_STATE_RUNNABLE
           \<and> next (legions w' 11) = None \<and> blocked_on (legions w' 11) = None)"
proof -
  have a: "capacity (channels world_one_parked 1) \<le> count (channels world_one_parked 1)
      \<and> closed (channels world_one_parked 1) = 0
      \<and> runtime_get_current_legion world_one_parked 2 = Some 12
      \<and> park_list (legions world_one_parked) (blocked_senders (channels world_one_parked 1)) [11]
      \<and> 12 \<notin> set [11 :: nat]"
    unfolding world_one_parked_def by code_simp
  have b: "count (channels world_two_parked 1) \<noteq> 0
      \<and> park_list (legions world_two_parked) (blocked_senders (channels world_two_parked 1)) [12, 11]
      \<and> 12 \<notin> set [11 :: nat]
      \<and> state (legions world_two_parked 12) = LEGION_STATE_BLOCKED"
    unfolding world_two_parked_def by code_simp
  have c: "count (channels (snd (runtime_channel_new world_running 8 1)) 1) = 0
      \<and> closed (channels (snd (runtime_channel_new world_running 8 1)) 1) = 0
      \<and> runtime_get_current_legion (snd (runtime_channel_new world_running 8 1)) 1 = Some 11
      \<and> park_list (legions (snd (runtime_channel_new world_running 8 1)))
           (blocked_receivers (channels (snd (runtime_channel_new world_running 8 1)) 1)) []
      \<and> 11 \<notin> set ([] :: nat list)"
    by code_simp
  have d: "count (channels world_recv_parked 1) < capacity (channels world_recv_parked 1)
      \<and> closed (channels world_recv_parked 1) = 0
      \<and> park_list (legions world_recv_parked) (blocked_receivers (channels world_recv_parked 1)) [11]
      \<and> 11 \<notin> set ([] :: nat list)
      \<and> state (legions world_recv_parked 11) = LEGION_STATE_BLOCKED"
    unfolding world_recv_parked_def by code_simp
  note p1 = park_lists_lifo [of world_one_parked 1 2 12 "[11]" 9,
      THEN conjunct1, THEN mp, OF a]
  note p2 = park_lists_lifo [of world_two_parked 1 0 12 "[11]" 0,
      THEN conjunct2, THEN conjunct1, THEN mp, OF conjI [OF ok_two b]]
  note p3 = park_lists_lifo [of "snd (runtime_channel_new world_running 8 1)" 1 1 11 "[]" 0,
      THEN conjunct2, THEN conjunct2, THEN conjunct1, THEN mp, OF c]
  note p4 = park_lists_lifo [of world_recv_parked 1 0 11 "[]" 7,
      THEN conjunct2, THEN conjunct2, THEN conjunct2, THEN mp, OF conjI [OF ok_recv d]]
  show ?thesis
    using p1 p2 p3 p4 by (intro conjI)
qed

text \<open>The slot content that worker 0 stores is never taken for a worker id.\<close>

lemma worker0_never_legion: "runtime_get_current_legion w (set_thread_id 0) = None"
  by (simp add: runtime_get_current_legion_def get_thread_id_def set_thread_id_def
      split: option.splits)

text \<open>
  With every ring full, the legion that a recv detaches from the head of the park list
  is made RUNNABLE and handed to \<open>runtime_legion_start\<close>, which drops it.
\<close>

lemma not_queued_full:
  "\<not> legion_queued (w\<lparr>g_scheduler := Some (sched_full\<lparr>active_legions := n\<rparr>)\<rparr>) 9999"
proof -
  have "Some 9999 \<notin> set (queue_contents (sched_full\<lparr>active_legions := n\<rparr>) i)" if "i < 4" for i
    using that by (auto simp: queue_contents_def sched_full_def)
  then show ?thesis
    by (simp add: legion_queued_def list_ex_iff MAX_OS_THREADS_def)
qed

lemma start_full_any:
  "runtime_legion_start (w\<lparr>g_scheduler := Some (sched_full\<lparr>active_legions := n\<rparr>)\<rparr>) (Some l)
     = w\<lparr>g_scheduler := Some (sched_full\<lparr>active_legions := n + 1\<rparr>)\<rparr>"
  by (simp add: runtime_legion_start_def find_least_loaded_full
      push_to_local_queue_def LEGION_QUEUE_SIZE_def Let_def)
     (simp add: sched_full_def)

lemma woken_head_dropped_when_full:
  "\<exists>w'. runtime_channel_recv world_full_parked 0 (Some 1) = Returned (Some 7) w'
         \<and> blocked_senders (channels w' 1) = None
         \<and> state (legions w' 9999) = LEGION_STATE_RUNNABLE
         \<and> \<not> legion_queued w' 9999"
  by (simp add: world_full_parked_def runtime_channel_recv_def runtime_alloc_def Let_def
      unblock_legion_from_channel_def start_full_any not_queued_full legion_zero_def)

section \<open>The claims\<close>

text \<open>
  Claim C1 (start never loses a legion) against the code: with every worker's ring
  full, \<open>runtime_legion_start\<close> counts the legion in \<open>active_legions\<close>, fails the
  lock-free push, fails the same test under the queue mutex, and returns. The rings
  are as before and the legion is in none of them.
\<close>

theorem start_full_drops_legion:
  "g_scheduler (runtime_legion_start world_full (Some 9999))
     = Some (sched_full\<lparr>active_legions := 1021\<rparr>)
   \<and> \<not> legion_queued (runtime_legion_start world_full (Some 9999)) 9999"
proof -
  have s: "g_scheduler (runtime_legion_start world_full (Some 9999))
     = Some (sched_full\<lparr>active_legions := 1021\<rparr>)"
    by (simp add: runtime_legion_start_def world_full_def find_least_loaded_full
        push_to_local_queue_def LEGION_QUEUE_SIZE_def Let_def)
       (simp add: sched_full_def)
  have "Some 9999 \<notin> set (queue_contents (sched_full\<lparr>active_legions := 1021\<rparr>) i)" if "i < 4" for i
    using that by (auto simp: queue_contents_def sched_full_def)
  then have "\<not> list_ex (\<lambda>i. Some 9999 \<in> set (queue_contents (sched_full\<lparr>active_legions := 1021\<rparr>) i))
               [0..<MAX_OS_THREADS]"
    by (simp add: list_ex_iff MAX_OS_THREADS_def)
  then show ?thesis using s by (simp add: legion_queued_def)
qed

text \<open>
  Claim C2. From a fresh channel of capacity \<open>C\<close> whose byte size \<open>elem_size * C\<close>
  does not wrap in \<open>size_t\<close> (so that the allocated buffer has room for \<open>C\<close> cells),
  every sequence of send, recv, try_send, try_recv and close critical sections runs
  without leaving defined behaviour, and the state after it (so after each of its
  prefixes) satisfies \<open>0 \<le> count \<le> C\<close> and, for \<open>C \<ge> 1\<close> (the contract of
  \<open>runtime_channel_new\<close>), \<open>head < C\<close>, \<open>tail < C\<close> and
  \<open>(tail - head + C) mod C = count\<close> whenever \<open>count \<noteq> C\<close>. With \<open>C = 0\<close> no index
  is below \<open>C\<close>.
\<close>

theorem channel_invariant:
  assumes nowrap: "unat elem_size' * unat capacity' < 2 ^ 64"
  shows "\<exists>w'. run_ops (snd (runtime_channel_new w elem_size' capacity'))
            (fst (runtime_channel_new w elem_size' capacity')) ops = Some w'
     \<and> capacity (channels w' (fst (runtime_channel_new w elem_size' capacity'))) = capacity'
     \<and> 0 \<le> uint (count (channels w' (fst (runtime_channel_new w elem_size' capacity'))))
     \<and> count (channels w' (fst (runtime_channel_new w elem_size' capacity'))) \<le> capacity'
     \<and> (capacity' \<noteq> 0 \<longrightarrow>
          chan_inv (channels w' (fst (runtime_channel_new w elem_size' capacity'))))"
proof (cases "capacity' = 0")
  case True
  let ?c = "fst (runtime_channel_new w elem_size' capacity')"
  let ?w1 = "snd (runtime_channel_new w elem_size' capacity')"
  have "capacity (channels ?w1 ?c) = 0" "count (channels ?w1 ?c) = 0"
    using channel_new_fields [of w elem_size' capacity'] True by simp_all
  from run_ops_null [OF this, of ops] show ?thesis using True by auto
next
  case False
  let ?c = "fst (runtime_channel_new w elem_size' capacity')"
  let ?w1 = "snd (runtime_channel_new w elem_size' capacity')"
  have ok: "chan_ok ?w1 ?c" and cap: "capacity (channels ?w1 ?c) = capacity'"
    using channel_new_ok [OF False nowrap, of w] by blast+
  from run_ops_ok [OF ok, of ops] obtain w' where
    r: "run_ops ?w1 ?c ops = Some w'" and ok': "chan_ok w' ?c"
    and cap': "capacity (channels w' ?c) = capacity (channels ?w1 ?c)"
    by blast
  have inv: "chan_inv (channels w' ?c)"
    using ok' chan_wf_inv [of "channels w' ?c"] by (simp add: chan_ok_def)
  then have "count (channels w' ?c) \<le> capacity'"
    using cap cap' by (simp add: chan_inv_def)
  then show ?thesis using r inv cap cap' by auto
qed

theorem channel_invariant_witness:
  "unat (8 :: size_t) * unat (2 :: size_t) < 2 ^ 64
   \<and> (2 :: size_t) \<noteq> 0
   \<and> (\<exists>w'. run_ops (snd (runtime_channel_new world0 8 2)) (fst (runtime_channel_new world0 8 2))
              [Op_try_send 7, Op_send 0 8, Op_send 0 9, Op_try_recv False, Op_recv 0, Op_close,
               Op_recv 0] = Some w'
          \<and> capacity (channels w' (fst (runtime_channel_new world0 8 2))) = 2
          \<and> count (channels w' (fst (runtime_channel_new world0 8 2))) \<le> 2
          \<and> chan_inv (channels w' (fst (runtime_channel_new world0 8 2))))"
proof -
  have h: "(2 :: size_t) \<noteq> 0" by simp
  have n: "unat (8 :: size_t) * unat (2 :: size_t) < 2 ^ 64" by simp
  show ?thesis
    using h n channel_invariant [OF n, of world0
        "[Op_try_send 7, Op_send 0 8, Op_send 0 9, Op_try_recv False, Op_recv 0, Op_close, Op_recv 0]"]
    by (auto simp del: run_ops.simps)
qed

text \<open>
  Claim C3. On a fresh channel of capacity \<open>k \<ge> 1\<close> whose byte size \<open>elem_size * k\<close>
  does not wrap in \<open>size_t\<close>, a sender sending \<open>vs\<close> in order and a receiver making
  \<open>length vs\<close> receives: under every interleaving of their critical sections the run
  stays defined, whenever both have finished the receiver has obtained exactly \<open>vs\<close>
  in order, and there is an interleaving under which both finish.
\<close>

theorem spsc_fifo:
  assumes "k \<noteq> 0" and "unat elem_size' * unat k < 2 ^ 64"
  shows "(\<forall>sch w' got.
            spsc_run (snd (runtime_channel_new w elem_size' k)) (fst (runtime_channel_new w elem_size' k))
              sch vs (length vs) [] = Some (w', [], 0, got)
            \<longrightarrow> got = map Some vs)
       \<and> (\<forall>sch. spsc_run (snd (runtime_channel_new w elem_size' k))
                   (fst (runtime_channel_new w elem_size' k)) sch vs (length vs) [] \<noteq> None)
       \<and> (\<exists>sch w'.
            spsc_run (snd (runtime_channel_new w elem_size' k)) (fst (runtime_channel_new w elem_size' k))
              sch vs (length vs) [] = Some (w', [], 0, map Some vs))"
proof -
  let ?c = "fst (runtime_channel_new w elem_size' k)"
  let ?w1 = "snd (runtime_channel_new w elem_size' k)"
  have ok: "chan_ok ?w1 ?c" and cl: "closed (channels ?w1 ?c) = 0"
    and cap: "capacity (channels ?w1 ?c) \<noteq> 0" and emp: "chan_contents (channels ?w1 ?c) = []"
    using channel_new_ok [OF assms, of w] assms(1) by simp_all
  have inv: "\<exists>w' pending' m' got'.
      spsc_run ?w1 ?c sch vs (length vs) [] = Some (w', pending', m', got')
      \<and> got' @ map Some (chan_contents (channels w' ?c)) @ map Some pending' = map Some vs
      \<and> length got' + m' = length vs" for sch
    using spsc_run_inv [OF ok cl, of sch vs "length vs" "[]"] emp by auto
  have "got = map Some vs"
    if "spsc_run ?w1 ?c sch vs (length vs) [] = Some (w', [], 0, got)" for sch w' got
  proof -
    from inv [of sch] that
    have eq: "got @ map Some (chan_contents (channels w' ?c)) = map Some vs"
      and len: "length got = length vs"
      by auto
    from eq have "length got + length (chan_contents (channels w' ?c)) = length vs"
      by (metis length_append length_map)
    with len have "chan_contents (channels w' ?c) = []" by simp
    with eq show ?thesis by simp
  qed
  moreover have "spsc_run ?w1 ?c sch vs (length vs) [] \<noteq> None" for sch
    using inv [of sch] by auto
  moreover have "\<exists>sch w'. spsc_run ?w1 ?c sch vs (length vs) [] = Some (w', [], 0, map Some vs)"
    using spsc_alternate [OF ok cl cap emp, of vs "[]"] by auto
  ultimately show ?thesis by blast
qed

theorem spsc_fifo_witness:
  "(2 :: size_t) \<noteq> 0
   \<and> unat (8 :: size_t) * unat (2 :: size_t) < 2 ^ 64
   \<and> map_option (snd \<circ> snd)
        (spsc_run (snd (runtime_channel_new world0 8 2)) (fst (runtime_channel_new world0 8 2))
           [(True, 0), (True, 0), (True, 0), (False, 0), (True, 0), (False, 0), (True, 0),
            (False, 0), (False, 0)] [10, 20, 30, 40] (length [10, 20, 30, 40 :: nat]) [])
      = Some (0, map Some [10, 20, 30, 40])"
proof -
  have h: "(2 :: size_t) \<noteq> 0" by simp
  have n: "unat (8 :: size_t) * unat (2 :: size_t) < 2 ^ 64" by simp
  have run: "map_option (fst \<circ> snd)
        (spsc_run (snd (runtime_channel_new world0 8 2)) (fst (runtime_channel_new world0 8 2))
           [(True, 0), (True, 0), (True, 0), (False, 0), (True, 0), (False, 0), (True, 0),
            (False, 0), (False, 0)] [10, 20, 30, 40] (length [10, 20, 30, 40 :: nat]) [])
      = Some []"
    and run2: "map_option (fst \<circ> snd \<circ> snd)
        (spsc_run (snd (runtime_channel_new world0 8 2)) (fst (runtime_channel_new world0 8 2))
           [(True, 0), (True, 0), (True, 0), (False, 0), (True, 0), (False, 0), (True, 0),
            (False, 0), (False, 0)] [10, 20, 30, 40] (length [10, 20, 30, 40 :: nat]) [])
      = Some 0"
    by code_simp+
  from run run2 obtain w' got where
    "spsc_run (snd (runtime_channel_new world0 8 2)) (fst (runtime_channel_new world0 8 2))
           [(True, 0), (True, 0), (True, 0), (False, 0), (True, 0), (False, 0), (True, 0),
            (False, 0), (False, 0)] [10, 20, 30, 40] (length [10, 20, 30, 40 :: nat]) []
       = Some (w', [], 0, got)"
    by (auto simp: map_option_case split: option.splits)
  with spsc_fifo [OF h n, of world0 "[10, 20, 30, 40]"] h n show ?thesis
    by (auto simp del: spsc_run.simps)
qed

text \<open>
  Claim C4. On a closed channel, consecutive receives return the buffered values in
  FIFO order and after them \<open>NULL\<close>, none of them blocking; and no sequence of
  operations clears \<open>closed\<close>.
\<close>

theorem closed_recv_drains:
  assumes "chan_ok w c" and "closed (channels w c) \<noteq> 0"
    and "length ts = length (chan_contents (channels w c)) + m"
  shows "(\<exists>w'. recv_seq w c ts
                 = Some (map Some (chan_contents (channels w c)) @ replicate m None, w')
               \<and> closed (channels w' c) \<noteq> 0)
       \<and> (\<exists>w'. run_ops w c ops = Some w' \<and> closed (channels w' c) \<noteq> 0)"
proof -
  from recv_seq_drain [OF assms] have
    "\<exists>w'. recv_seq w c ts = Some (map Some (chan_contents (channels w c)) @ replicate m None, w')
          \<and> closed (channels w' c) \<noteq> 0"
    by blast
  moreover from run_ops_ok [OF assms(1), of ops] assms(2) have
    "\<exists>w'. run_ops w c ops = Some w' \<and> closed (channels w' c) \<noteq> 0"
    by blast
  ultimately show ?thesis by blast
qed

theorem closed_recv_drains_witness:
  "map_option fst (recv_seq world_s3 1 [0, 0, 0, 0, 0]) = Some [Some 1, Some 2, Some 3, None, None]
   \<and> (\<exists>w'. run_ops world_s3 1 [Op_try_send 4, Op_recv 0, Op_send 0 5] = Some w'
          \<and> closed (channels w' 1) \<noteq> 0)"
proof -
  have c: "fst (runtime_channel_new world0 8 4) = 1"
    by (simp add: runtime_channel_new_def runtime_alloc_def world0_def)
  have "chan_ok (snd (runtime_channel_new world0 8 4)) 1"
    using channel_new_ok(1) [of 4 8 world0] c by simp
  from run_ops_ok [OF this, of "[Op_try_send 1, Op_try_send 2, Op_try_send 3, Op_close]"]
  have ok: "chan_ok world_s3 1"
    by (auto simp: world_s3_def world_after_def simp del: run_ops.simps)
  have cl: "closed (channels world_s3 1) \<noteq> 0"
    unfolding world_s3_def by code_simp
  have cont: "chan_contents (channels world_s3 1) = [1, 2, 3]"
    unfolding world_s3_def by code_simp
  have len: "length [0, 0, 0, 0, 0 :: int] = length (chan_contents (channels world_s3 1)) + 2"
    unfolding cont by simp
  from closed_recv_drains [OF ok cl len, of "[Op_try_send 4, Op_recv 0, Op_send 0 5]"]
  show ?thesis unfolding cont by (auto simp: numeral_2_eq_2 simp del: run_ops.simps recv_seq.simps)
qed

text \<open>
  Claim C5. A send to a closed channel returns without error and leaves the process
  state, and with it the channel's \<open>count\<close>, \<open>head\<close>, \<open>tail\<close> and buffer, unchanged.
\<close>

theorem send_closed_noop:
  assumes "closed (channels w c) \<noteq> 0"
  shows "runtime_channel_send w tls (Some c) v = Returned () w"
  using assms by (simp add: runtime_channel_send_def Let_def)

theorem send_closed_noop_witness:
  "closed (channels (runtime_channel_close world0 (Some 3)) 3) \<noteq> 0
   \<and> runtime_channel_send (runtime_channel_close world0 (Some 3)) 0 (Some 3) 7
       = Returned () (runtime_channel_close world0 (Some 3))"
proof -
  have h: "closed (channels (runtime_channel_close world0 (Some 3)) 3) \<noteq> 0"
    by (simp add: runtime_channel_close_def)
  show ?thesis
    using h send_closed_noop [OF h] by simp
qed

text \<open>
  Claim C6, as the code has it. \<open>runtime_legion_spawn\<close> bounds the requested stack
  size from above only: a request of 0 selects 256 KiB, a request above 2 MiB is
  lowered to 2 MiB, and any other request is kept. So the size is at most 2 MiB, and
  at least 256 KiB when the request is 0 or at least 256 KiB. The legion is returned
  in state RUNNABLE with \<open>thread_id\<close> -1 and the context that
  \<open>malphas_context_make_trampoline\<close> builds for \<open>legion_entry\<close> on its stack.
\<close>

theorem spawn_stack_size:
  "stack_size (legions (snd (runtime_legion_spawn pf mem w f a req))
                 (fst (runtime_legion_spawn pf mem w f a req)))
     = (if req = 0 then LEGION_STACK_SIZE
        else if req > LEGION_STACK_MAX then LEGION_STACK_MAX else req)
   \<and> stack_size (legions (snd (runtime_legion_spawn pf mem w f a req))
                 (fst (runtime_legion_spawn pf mem w f a req))) \<le> LEGION_STACK_MAX
   \<and> (req = 0 \<or> LEGION_STACK_SIZE \<le> req \<longrightarrow>
        LEGION_STACK_SIZE \<le> stack_size (legions (snd (runtime_legion_spawn pf mem w f a req))
                                          (fst (runtime_legion_spawn pf mem w f a req))))
   \<and> state (legions (snd (runtime_legion_spawn pf mem w f a req))
              (fst (runtime_legion_spawn pf mem w f a req))) = LEGION_STATE_RUNNABLE
   \<and> thread_id (legions (snd (runtime_legion_spawn pf mem w f a req))
                  (fst (runtime_legion_spawn pf mem w f a req))) = - 1
   \<and> ctx (legions (snd (runtime_legion_spawn pf mem w f a req))
            (fst (runtime_legion_spawn pf mem w f a req)))
       = malphas_context_make_trampoline pf (legion_entry pf)
           (word_of_nat (fst (runtime_legion_spawn pf mem w f a req)))
           (stack (legions (snd (runtime_legion_spawn pf mem w f a req))
                     (fst (runtime_legion_spawn pf mem w f a req))))
           (stack_size (legions (snd (runtime_legion_spawn pf mem w f a req))
                          (fst (runtime_legion_spawn pf mem w f a req))))"
proof -
  have le: "LEGION_STACK_SIZE \<le> LEGION_STACK_MAX"
    by (simp add: LEGION_STACK_SIZE_def LEGION_STACK_MAX_def)
  show ?thesis
    using le
    by (cases mem)
       (auto simp: runtime_legion_spawn_def runtime_alloc_def allocate_stack_with_guard_def
          Let_def not_less split: prod.splits)
qed

theorem spawn_stack_size_witness:
  "stack_size (legions (snd (runtime_legion_spawn pf0 (Some 65536) world0 0 0 0))
                 (fst (runtime_legion_spawn pf0 (Some 65536) world0 0 0 0))) = 262144
   \<and> stack_size (legions (snd (runtime_legion_spawn pf0 (Some 65536) world0 0 0 4194304))
                 (fst (runtime_legion_spawn pf0 (Some 65536) world0 0 0 4194304))) = 2097152
   \<and> ctx (legions (snd (runtime_legion_spawn pf0 (Some 65536) world0 0 0 0))
                 (fst (runtime_legion_spawn pf0 (Some 65536) world0 0 0 0)))
       = Context_x86_64 1 0 8192 0 0 0 331768 4096"
  using spawn_stack_size [of pf0 "Some 65536" world0 0 0 0]
    spawn_stack_size [of pf0 "Some 65536" world0 0 0 4194304]
  by (simp add: LEGION_STACK_SIZE_def LEGION_STACK_MAX_def)
     (simp add: runtime_legion_spawn_def runtime_alloc_def allocate_stack_with_guard_def
        Let_def LEGION_STACK_SIZE_def LEGION_STACK_MAX_def LEGION_STACK_GUARD_SIZE_def world0_def
        malphas_context_make_trampoline_def pf0_def)

text \<open>Claim C6 as stated fails: a request of 4096 bytes is not raised to 256 KiB.\<close>

theorem spawn_small_request:
  "\<not> LEGION_STACK_SIZE \<le> stack_size (legions (snd (runtime_legion_spawn pf0 None world0 0 0 4096))
                                        (fst (runtime_legion_spawn pf0 None world0 0 0 4096)))"
  by (simp add: runtime_legion_spawn_def runtime_alloc_def allocate_stack_with_guard_def
      Let_def LEGION_STACK_SIZE_def LEGION_STACK_MAX_def world0_def word_le_nat_alt)

text \<open>
  Claim C7 (a legion that blocks in send or recv is linked at the head of the park
  list, so that the counterpart wakes the legion parked last) against the code. Worker
  0 stores its id 0 in its thread-local slot, which \<open>get_thread_id\<close> reads as a slot
  never written: a legion run by worker 0 is not recognised by
  \<open>runtime_get_current_legion\<close>. With worker 0 running legion 10, its send on a full
  open channel and its recv on an empty open channel wait on the condition variable
  and leave both park lists empty.
\<close>

theorem worker0_legion_not_parked:
  "map_option (\<lambda>s. current_legion s 0) (g_scheduler world_worker0_full) = Some (Some 10)
   \<and> runtime_get_current_legion world_worker0_full (set_thread_id 0) = None
   \<and> capacity (channels world_worker0_full 1) \<le> count (channels world_worker0_full 1)
   \<and> closed (channels world_worker0_full 1) = 0
   \<and> runtime_channel_send world_worker0_full (set_thread_id 0) (Some 1) 8
       = Waiting world_worker0_full
   \<and> blocked_senders (channels world_worker0_full 1) = None
   \<and> map_option (\<lambda>s. current_legion s 0) (g_scheduler world_worker0_empty) = Some (Some 10)
   \<and> count (channels world_worker0_empty 1) = 0
   \<and> closed (channels world_worker0_empty 1) = 0
   \<and> runtime_channel_recv world_worker0_empty (set_thread_id 0) (Some 1)
       = Waiting world_worker0_empty
   \<and> blocked_receivers (channels world_worker0_empty 1) = None"
proof -
  have full: "map_option (\<lambda>s. current_legion s 0) (g_scheduler world_worker0_full) = Some (Some 10)
      \<and> capacity (channels world_worker0_full 1) \<le> count (channels world_worker0_full 1)
      \<and> closed (channels world_worker0_full 1) = 0
      \<and> blocked_senders (channels world_worker0_full 1) = None"
    unfolding world_worker0_full_def world_worker0_empty_def by code_simp
  have emp: "map_option (\<lambda>s. current_legion s 0) (g_scheduler world_worker0_empty) = Some (Some 10)
      \<and> count (channels world_worker0_empty 1) = 0
      \<and> closed (channels world_worker0_empty 1) = 0
      \<and> blocked_receivers (channels world_worker0_empty 1) = None"
    unfolding world_worker0_empty_def by code_simp
  have s: "runtime_channel_send world_worker0_full (set_thread_id 0) (Some 1) 8
             = Waiting world_worker0_full"
    using full worker0_never_legion [of world_worker0_full] by (intro send_wait) simp_all
  have r: "runtime_channel_recv world_worker0_empty (set_thread_id 0) (Some 1)
             = Waiting world_worker0_empty"
    using emp worker0_never_legion [of world_worker0_empty] by (intro recv_wait) simp_all
  show ?thesis
    using full emp s r worker0_never_legion [of world_worker0_full] by simp
qed

text \<open>
  Claim C8 (an owner pop and a steal never return the same slot) against the code:
  \<open>pop_from_local_queue\<close> stores the new head without comparing. With legion 5 alone
  in worker 0's ring, the owner reads head, tail and the slot, the thief then steals the
  slot, and the owner's store completes its pop: both return legion 5.
\<close>

theorem pop_steal_same_slot:
  "snd (pop_steal_race sched_one 0 [True, True, True, False, False, False, False, True]
          Pop_load_head Steal_load_head)
     = (Pop_done (Some 5), Steal_done (Some 5))"
  by (simp add: sched_one_def LEGION_QUEUE_SIZE_def)

text \<open>
  Claim C9. Every public channel operation is total on a \<open>NULL\<close> channel pointer:
  send and close return at once and change nothing, recv returns \<open>NULL\<close>, try_send
  and try_recv return 0, and is_closed returns 1.
\<close>

theorem channel_ops_null:
  "runtime_channel_send w tls None v = Returned () w
   \<and> runtime_channel_close w None = w
   \<and> runtime_channel_recv w tls None = Returned None w
   \<and> runtime_channel_try_send w None v = Returned 0 w
   \<and> runtime_channel_try_recv w None value_null = Returned (0, None) w
   \<and> runtime_channel_is_closed w None = 1"
  by (simp add: runtime_channel_send_def runtime_channel_close_def runtime_channel_recv_def
      runtime_channel_try_send_def runtime_channel_try_recv_def runtime_channel_is_closed_def)

text \<open>
  Claim C10. Unblocking is guarded by state: on a legion whose state is not
  \<open>LEGION_STATE_BLOCKED\<close>, \<open>runtime_legion_unblock\<close> and
  \<open>unblock_legion_from_channel\<close> return with the whole process state unchanged: the
  legion's \<open>state\<close> and \<open>blocked_on\<close>, the \<open>active_legions\<close> counter and every run
  queue are as before, and nothing is enqueued.
\<close>

theorem unblock_not_blocked_noop:
  assumes "state (legions w l) \<noteq> LEGION_STATE_BLOCKED"
  shows "runtime_legion_unblock w (Some l) = Some w
         \<and> unblock_legion_from_channel w (Some l) = Some w"
  using assms by (simp add: runtime_legion_unblock_def unblock_legion_from_channel_def)

theorem unblock_not_blocked_noop_witness:
  "state (legions world0 2) \<noteq> LEGION_STATE_BLOCKED
   \<and> runtime_legion_unblock world0 (Some 2) = Some world0
   \<and> unblock_legion_from_channel world0 (Some 2) = Some world0"
proof -
  have h: "state (legions world0 2) \<noteq> LEGION_STATE_BLOCKED"
    by (simp add: world0_def legion_zero_def)
  show ?thesis
    using h unblock_not_blocked_noop [OF h] by simp
qed

end
